theory Spec2Isabelle
  imports Main "HOL-Library.Sublist" "HOL-Library.AList" "HOL-Library.Multiset"
begin

section \<open>Strings and paths\<close>

text \<open>
  Paths are the absolute, normalised paths that the program obtains from
  \<^verbatim>\<open>path.join(__dirname, ...)\<close> and from joining directory entries onto them: a path
  is the list of its segments below the file-system root. The functions of Node's
  \<^verbatim>\<open>path\<close> module are given on this representation.
\<close>

type_synonym path = "string list"

text \<open>\<^verbatim>\<open>String.prototype.toLowerCase\<close> on the ASCII range.\<close>

definition toLowerCase_char :: "char \<Rightarrow> char" where
  "toLowerCase_char c =
     (case map_of (zip ''ABCDEFGHIJKLMNOPQRSTUVWXYZ'' ''abcdefghijklmnopqrstuvwxyz'') c of
        Some l \<Rightarrow> l
      | None \<Rightarrow> c)"

definition toLowerCase :: "string \<Rightarrow> string" where
  "toLowerCase s = map toLowerCase_char s"

text \<open>\<^verbatim>\<open>s.startsWith('.')\<close>\<close>

fun startsWith_dot :: "string \<Rightarrow> bool" where
  "startsWith_dot [] = False"
| "startsWith_dot (c # _) = (c = CHR ''.'')"

text \<open>
  \<^verbatim>\<open>path.extname\<close> of a name without separators: the part from the last dot on; empty
  when the name has no dot, when its last dot is its first character, and for the name
  \<^verbatim>\<open>..\<close>.
\<close>

definition extname :: "string \<Rightarrow> string" where
  "extname name =
     (if CHR ''.'' \<notin> set name then []
      else let ext = CHR ''.'' # rev (takeWhile (\<lambda>c. c \<noteq> CHR ''.'') (rev name));
               startDot = length name - length ext
           in if startDot = 0 \<or> name = ''..'' then [] else ext)"

text \<open>\<^verbatim>\<open>path.basename\<close>, \<^verbatim>\<open>path.dirname\<close>; \<^verbatim>\<open>path.join(dir, file)\<close> for a directory entry.\<close>

definition basename :: "path \<Rightarrow> string" where
  "basename p = (if p = [] then [] else last p)"

definition dirname :: "path \<Rightarrow> path" where
  "dirname p = butlast p"

definition path_join :: "path \<Rightarrow> string \<Rightarrow> path" where
  "path_join dir file = dir @ [file]"

text \<open>\<^verbatim>\<open>path.relative(from, to)\<close>: drop the common prefix, climb out of what is left of \<open>from\<close>.\<close>

fun relative :: "path \<Rightarrow> path \<Rightarrow> string list" where
  "relative (a # as) (b # bs) =
     (if a = b then relative as bs else replicate (length (a # as)) ''..'' @ (b # bs))"
| "relative [] bs = bs"
| "relative as [] = replicate (length as) ''..''"

text \<open>
  \<^verbatim>\<open>path.join(root, rel, name)\<close> normalises the concatenation: \<^verbatim>\<open>..\<close> removes the segment
  before it (and stays at the root), \<^verbatim>\<open>.\<close> and empty segments vanish.
\<close>

definition normalize_step :: "path \<Rightarrow> string \<Rightarrow> path" where
  "normalize_step acc s =
     (if s = ''..'' then butlast acc else if s = ''.'' \<or> s = [] then acc else acc @ [s])"

definition normalize_path :: "string list \<Rightarrow> path" where
  "normalize_path segs = foldl normalize_step [] segs"

definition path_join3 :: "path \<Rightarrow> string list \<Rightarrow> string \<Rightarrow> path" where
  "path_join3 root rel name = normalize_path (root @ rel @ [name])"

section \<open>Configuration\<close>

datatype log_level = minimal | normal | verbose

text \<open>
  The \<^verbatim>\<open>CONFIG\<close> object of \<^verbatim>\<open>index.js\<close>. \<^verbatim>\<open>TASK_DELAY\<close> and \<^verbatim>\<open>TIMEOUT\<close> are durations
  of waits and have no place in a model without time.
\<close>

record config =
  SOURCE_ROOT :: path
  OUTPUT_ROOT :: path
  SUPPORTED_FORMATS :: "string list"
  MAX_CONCURRENT :: int
  MAX_RETRIES :: int
  LOG_LEVEL :: log_level
  PRESERVE_DIR_STRUCTURE :: bool
  SKIP_HIDDEN_DIRS :: bool
  COPY_UNSUPPORTED_TO_OUTPUT :: bool
  SAVE_FAILED_TO :: path

text \<open>
  The values written in \<^verbatim>\<open>index.js\<close>, for the script's directory \<open>dir\<close>
  (\<^verbatim>\<open>__dirname\<close>) and the number \<open>cpus\<close> of processors (\<^verbatim>\<open>os.cpus().length\<close>).
\<close>

definition CONFIG :: "path \<Rightarrow> int \<Rightarrow> config" where
  "CONFIG dir cpus =
     \<lparr> SOURCE_ROOT = path_join dir ''static'',
       OUTPUT_ROOT = path_join dir ''compressed_results'',
       SUPPORTED_FORMATS = [''.jpg'', ''.jpeg'', ''.png'', ''.webp''],
       MAX_CONCURRENT = max 1 (cpus - 1),
       MAX_RETRIES = 2,
       LOG_LEVEL = normal,
       PRESERVE_DIR_STRUCTURE = True,
       SKIP_HIDDEN_DIRS = True,
       COPY_UNSUPPORTED_TO_OUTPUT = True,
       SAVE_FAILED_TO = path_join dir ''failed_images'' \<rparr>"

text \<open>\<^verbatim>\<open>CONFIG.SUPPORTED_FORMATS.includes(path.extname(file).toLowerCase())\<close>\<close>

definition is_supported :: "config \<Rightarrow> string \<Rightarrow> bool" where
  "is_supported cfg file = (toLowerCase (extname file) \<in> set (SUPPORTED_FORMATS cfg))"

section \<open>The file system\<close>

text \<open>
  A file system is the tree below its root: a regular file with its content, or a
  directory with its entries in the order \<^verbatim>\<open>readdirSync\<close> lists them. There are no
  symbolic links, so \<^verbatim>\<open>statSync\<close> sees what the tree holds.
\<close>

datatype node = File string | Dir "(string \<times> node) list"

datatype fs_error = ENOENT | ENOTDIR | EISDIR | EEXIST

fun lookup :: "node \<Rightarrow> path \<Rightarrow> node option" where
  "lookup n [] = Some n"
| "lookup (File _) (_ # _) = None"
| "lookup (Dir es) (d # p) = (case map_of es d of None \<Rightarrow> None | Some child \<Rightarrow> lookup child p)"

definition existsSync :: "node \<Rightarrow> path \<Rightarrow> bool" where
  "existsSync fs p = (lookup fs p \<noteq> None)"

definition readdirSync :: "node \<Rightarrow> path \<Rightarrow> fs_error + string list" where
  "readdirSync fs p =
     (case lookup fs p of
        None \<Rightarrow> Inl ENOENT
      | Some (File _) \<Rightarrow> Inl ENOTDIR
      | Some (Dir es) \<Rightarrow> Inr (map fst es))"

definition readFileSync :: "node \<Rightarrow> path \<Rightarrow> fs_error + string" where
  "readFileSync fs p =
     (case lookup fs p of
        None \<Rightarrow> Inl ENOENT
      | Some (Dir _) \<Rightarrow> Inl EISDIR
      | Some (File d) \<Rightarrow> Inr d)"

text \<open>\<^verbatim>\<open>fs.writeFileSync(p, d)\<close>: the parent must be a directory, the target not one.\<close>

fun writeFileSync :: "node \<Rightarrow> path \<Rightarrow> string \<Rightarrow> fs_error + node" where
  "writeFileSync (File _) _ _ = Inl ENOTDIR"
| "writeFileSync (Dir es) [] _ = Inl EISDIR"
| "writeFileSync (Dir es) [name] d =
     (case map_of es name of
        Some (Dir _) \<Rightarrow> Inl EISDIR
      | _ \<Rightarrow> Inr (Dir (AList.update name (File d) es)))"
| "writeFileSync (Dir es) (dir # p) d =
     (case map_of es dir of
        None \<Rightarrow> Inl ENOENT
      | Some child \<Rightarrow>
          (case writeFileSync child p d of
             Inl e \<Rightarrow> Inl e
           | Inr child' \<Rightarrow> Inr (Dir (AList.update dir child' es))))"

text \<open>\<^verbatim>\<open>fs.unlinkSync(p)\<close> removes a regular file.\<close>

fun unlinkSync :: "node \<Rightarrow> path \<Rightarrow> fs_error + node" where
  "unlinkSync (File _) _ = Inl ENOTDIR"
| "unlinkSync (Dir es) [] = Inl EISDIR"
| "unlinkSync (Dir es) [name] =
     (case map_of es name of
        None \<Rightarrow> Inl ENOENT
      | Some (Dir _) \<Rightarrow> Inl EISDIR
      | Some (File _) \<Rightarrow> Inr (Dir (AList.delete name es)))"
| "unlinkSync (Dir es) (dir # p) =
     (case map_of es dir of
        None \<Rightarrow> Inl ENOENT
      | Some child \<Rightarrow>
          (case unlinkSync child p of
             Inl e \<Rightarrow> Inl e
           | Inr child' \<Rightarrow> Inr (Dir (AList.update dir child' es))))"

text \<open>\<^verbatim>\<open>fs.mkdirSync(p, { recursive: true })\<close> creates every missing directory of \<open>p\<close>.\<close>

fun mkdirSync :: "node \<Rightarrow> path \<Rightarrow> fs_error + node" where
  "mkdirSync (File _) [] = Inl EEXIST"
| "mkdirSync (File _) (_ # _) = Inl ENOTDIR"
| "mkdirSync (Dir es) [] = Inr (Dir es)"
| "mkdirSync (Dir es) (dir # p) =
     (case mkdirSync (case map_of es dir of None \<Rightarrow> Dir [] | Some child \<Rightarrow> child) p of
        Inl e \<Rightarrow> Inl e
      | Inr child' \<Rightarrow> Inr (Dir (AList.update dir child' es)))"

text \<open>\<^verbatim>\<open>fs.copyFileSync(src, dest)\<close> overwrites \<open>dest\<close> (no \<^verbatim>\<open>COPYFILE_EXCL\<close> is passed).\<close>

definition copyFileSync :: "node \<Rightarrow> path \<Rightarrow> path \<Rightarrow> fs_error + node" where
  "copyFileSync fs src dest =
     (case readFileSync fs src of
        Inl e \<Rightarrow> Inl e
      | Inr d \<Rightarrow> writeFileSync fs dest d)"

section \<open>Discovery\<close>

text \<open>
  \<^verbatim>\<open>getAllImageFiles(dir)\<close> of \<^verbatim>\<open>index.js\<close>; \<open>n\<close> is what the file system holds at
  \<open>dir\<close>. \<^verbatim>\<open>readdirSync\<close> of a regular file throws, and nothing here catches it.
\<close>

fun collect :: "(fs_error + path list) list \<Rightarrow> fs_error + path list" where
  "collect [] = Inr []"
| "collect (Inl e # _) = Inl e"
| "collect (Inr ps # rs) = (case collect rs of Inl e \<Rightarrow> Inl e | Inr qs \<Rightarrow> Inr (ps @ qs))"

fun getAllImageFiles :: "config \<Rightarrow> path \<Rightarrow> node \<Rightarrow> fs_error + path list" where
  "getAllImageFiles cfg dir n =
     (if SKIP_HIDDEN_DIRS cfg \<and> startsWith_dot (basename dir) then Inr []
      else if dir = SAVE_FAILED_TO cfg then Inr []
      else case n of
        File _ \<Rightarrow> Inl ENOTDIR
      | Dir entries \<Rightarrow>
          collect (map (\<lambda>(file, child).
            let fullPath = path_join dir file in
            (case child of
               Dir _ \<Rightarrow> getAllImageFiles cfg fullPath child
             | File _ \<Rightarrow> if is_supported cfg file then Inr [fullPath] else Inr [])) entries))"

section \<open>Compressing one image: the retry loop\<close>

text \<open>
  A JavaScript error as the \<^verbatim>\<open>catch\<close> of \<^verbatim>\<open>compressImageWorker\<close> reads it:
  \<^verbatim>\<open>err.response\<close> (its \<^verbatim>\<open>status\<close> and \<^verbatim>\<open>data.error\<close>, the empty string when absent),
  whether \<^verbatim>\<open>err.request\<close> is set, and \<^verbatim>\<open>err.message\<close>.
\<close>

datatype js_error = JsError (response: "(nat \<times> string) option") (request: bool) (message: string)

fun fs_error_code :: "fs_error \<Rightarrow> string" where
  "fs_error_code ENOENT = ''ENOENT''"
| "fs_error_code ENOTDIR = ''ENOTDIR''"
| "fs_error_code EISDIR = ''EISDIR''"
| "fs_error_code EEXIST = ''EEXIST''"

text \<open>
  The error a failing \<^verbatim>\<open>fs\<close> call throws. Of Node's message (\<^verbatim>\<open>ENOENT: no such file or
  directory, open ...\<close>) only the code is kept.
\<close>

definition fs_js_error :: "fs_error \<Rightarrow> js_error" where
  "fs_js_error e = JsError None False (fs_error_code e)"

fun show_nat :: "nat \<Rightarrow> string" where
  "show_nat n =
     (if n < 10 then [''0123456789'' ! n] else show_nat (n div 10) @ [''0123456789'' ! (n mod 10)])"

declare show_nat.simps [simp del]

text \<open>The classification of the last error (\<^verbatim>\<open>errorDetails\<close>).\<close>

definition errorDetails :: "js_error \<Rightarrow> string" where
  "errorDetails err =
     (case response err of
        Some (status, data_error) \<Rightarrow>
          ''HTTP '' @ show_nat status @ '': '' @
            (if data_error = [] then ''Unknown error'' else data_error)
      | None \<Rightarrow>
          if request err then ''No response from server''
          else if message err = [] then ''Unknown error'' else message err)"

text \<open>
  The record \<^verbatim>\<open>compressImageWorker\<close> returns (\<^verbatim>\<open>success: true\<close> or \<^verbatim>\<open>false\<close>), without
  \<^verbatim>\<open>savedPercent\<close>, a formatted floating-point number. The failure record that
  \<^verbatim>\<open>processWorker\<close> builds in its own \<^verbatim>\<open>catch\<close> has no \<^verbatim>\<open>fileName\<close>.
\<close>

datatype result =
    Success (filePath: path) (outputPath: path) (fileName: string)
      (originalSize: nat) (compressedSize: nat)
  | Failure (failedName: "string option") (filePath: path) (error: string)

fun success :: "result \<Rightarrow> bool" where
  "success (Success _ _ _ _ _) = True"
| "success (Failure _ _ _) = False"

text \<open>
  The remote service, asked about a file at its \<open>n\<close>-th attempt: the upload
  (\<^verbatim>\<open>STORE_URL\<close>) fails, the processing request (\<^verbatim>\<open>PROCESS_URL\<close>) fails, the download
  fails, or the compressed bytes arrive. The request headers and the media type
  (\<^verbatim>\<open>fileType\<close>) only go to the service.
\<close>

datatype reply = StoreFailed js_error | ProcessFailed js_error | DownloadFailed js_error
  | Compressed string

type_synonym remote = "path \<Rightarrow> nat \<Rightarrow> reply"

text \<open>Step 6: where the compressed file goes.\<close>

definition output_path :: "config \<Rightarrow> path \<Rightarrow> path \<Rightarrow> path" where
  "output_path cfg file outputRoot =
     (if PRESERVE_DIR_STRUCTURE cfg
      then path_join3 outputRoot (relative (SOURCE_ROOT cfg) (dirname file)) (basename file)
      else path_join outputRoot (basename file))"

text \<open>Step 7: \<^verbatim>\<open>if (!fs.existsSync(outputDir)) fs.mkdirSync(outputDir, { recursive: true })\<close>\<close>

definition ensure_dir :: "node \<Rightarrow> path \<Rightarrow> fs_error + node" where
  "ensure_dir fs dir = (if existsSync fs dir then Inr fs else mkdirSync fs dir)"

text \<open>
  One pass through the \<^verbatim>\<open>try\<close> block: the file system afterwards, and the error caught
  or the record returned. The output directory is made before the download starts.
\<close>

definition attempt ::
  "config \<Rightarrow> remote \<Rightarrow> path \<Rightarrow> path \<Rightarrow> nat \<Rightarrow> node \<Rightarrow> node \<times> (js_error + result)" where
  "attempt cfg remote file outputRoot n fs =
     (case readFileSync fs file of
        Inl e \<Rightarrow> (fs, Inl (fs_js_error e))
      | Inr fileData \<Rightarrow>
          (let target = output_path cfg file outputRoot in
           case remote file n of
             StoreFailed err \<Rightarrow> (fs, Inl err)
           | ProcessFailed err \<Rightarrow> (fs, Inl err)
           | DownloadFailed err \<Rightarrow>
               (case ensure_dir fs (dirname target) of
                  Inl e \<Rightarrow> (fs, Inl (fs_js_error e))
                | Inr fs1 \<Rightarrow> (fs1, Inl err))
           | Compressed bytes \<Rightarrow>
               (case ensure_dir fs (dirname target) of
                  Inl e \<Rightarrow> (fs, Inl (fs_js_error e))
                | Inr fs1 \<Rightarrow>
                    (case writeFileSync fs1 target bytes of
                       Inl e \<Rightarrow> (fs1, Inl (fs_js_error e))
                     | Inr fs2 \<Rightarrow>
                         (fs2, Inr (Success file target (basename file)
                                      (length fileData) (length bytes)))))))"

text \<open>
  The \<^verbatim>\<open>while (retryCount <= CONFIG.MAX_RETRIES)\<close> loop. It returns the file system, the
  outcome of every attempt in order (one entry per pass through the \<^verbatim>\<open>try\<close> block),
  and the returned record; \<open>None\<close> is \<^verbatim>\<open>undefined\<close>, returned when the loop body never
  runs.
\<close>

function compressImageWorker_loop ::
  "config \<Rightarrow> remote \<Rightarrow> path \<Rightarrow> path \<Rightarrow> int \<Rightarrow> node
     \<Rightarrow> node \<times> (js_error + result) list \<times> result option" where
  "compressImageWorker_loop cfg remote file outputRoot retryCount fs =
     (if retryCount \<le> MAX_RETRIES cfg then
        (case attempt cfg remote file outputRoot (nat retryCount) fs of
           (fs', Inr res) \<Rightarrow> (fs', [Inr res], Some res)
         | (fs', Inl err) \<Rightarrow>
             (if retryCount + 1 > MAX_RETRIES cfg
              then (fs', [Inl err],
                    Some (Failure (Some (basename file)) file (errorDetails err)))
              else (case compressImageWorker_loop cfg remote file outputRoot
                           (retryCount + 1) fs' of
                      (fs'', tries, res) \<Rightarrow> (fs'', Inl err # tries, res))))
      else (fs, [], None))"
  by pat_completeness auto
termination
  by (relation "measure (\<lambda>(cfg, remote, file, outputRoot, retryCount, fs).
        nat (MAX_RETRIES cfg + 1 - retryCount))") auto

declare compressImageWorker_loop.simps [simp del]

definition compressImageWorker ::
  "config \<Rightarrow> remote \<Rightarrow> path \<Rightarrow> path \<Rightarrow> node
     \<Rightarrow> node \<times> (js_error + result) list \<times> result option" where
  "compressImageWorker cfg remote file outputRoot fs =
     compressImageWorker_loop cfg remote file outputRoot 0 fs"

section \<open>Console, world and pool\<close>

text \<open>
  What the program prints, one constructor per \<^verbatim>\<open>console\<close> call of \<^verbatim>\<open>index.js\<close>, with the
  values the message shows instead of its formatted text.
\<close>

datatype msg =
    Banner
  | SourceRootMissing path
  | NoImagesFound
  | Processing "string list"
  | ItemCompressed "string list" nat nat
  | HoldingFileDeleted path
  | CannotDeleteHoldingFile path string
  | ItemFailed "string list" string
  | FailedFileCopied path path
  | CannotCopyFailedFile path string
  | FailedFilesSavedTo path
  | Summary nat nat nat nat
  | UnsupportedFileCopied path path
  | UnsupportedCopyDone
  | FirstPassDone path
  | NoHoldingDirectory
  | NothingToRetry
  | RetryStarted nat
  | RetryFinished nat nat
  | StillFailing
  | AllRecovered
  | RetryOnlyMode
  | FatalError js_error

record world =
  fs :: node
  console :: "msg list"

definition log :: "msg \<Rightarrow> 'a world_scheme \<Rightarrow> 'a world_scheme" where
  "log m w = w\<lparr>console := console w @ [m]\<rparr>"

definition log_if :: "bool \<Rightarrow> msg \<Rightarrow> 'a world_scheme \<Rightarrow> 'a world_scheme" where
  "log_if b m w = (if b then log m w else w)"

text \<open>
  A worker is one call of the \<^verbatim>\<open>async\<close> function \<^verbatim>\<open>processWorker\<close>. Between two of its
  \<^verbatim>\<open>await\<close>s it runs without interruption (one thread, cooperative scheduling), so
  its state is where it waits: for \<^verbatim>\<open>compressImageWorker\<close> on a file it took from the
  queue, or for the \<^verbatim>\<open>TASK_DELAY\<close> timer; or its promise is settled.
\<close>

datatype wstate = Running path | Waiting | Exited | Rejected js_error

text \<open>
  A pass: the world, the queue \<^verbatim>\<open>filesToProcess\<close>, the two arrays of \<^verbatim>\<open>results\<close>, the
  progress bar (its count of \<^verbatim>\<open>tick\<close>s, when there is a bar) and the workers' promises.
\<close>

record pool = world +
  files :: "path list"
  results_success :: "result list"
  results_failed :: "result list"
  bar :: "nat option"
  workers :: "wstate list"

definition world_of :: "pool \<Rightarrow> world" where
  "world_of st = \<lparr> fs = fs st, console = console st \<rparr>"

section \<open>The worker\<close>

text \<open>
  \<^verbatim>\<open>processWorker\<close> of \<^verbatim>\<open>index.js\<close>, from the loop test to the call of
  \<^verbatim>\<open>compressImageWorker\<close>: leave when the queue is empty, else take its first file.
\<close>

definition processWorker_head :: "config \<Rightarrow> pool \<Rightarrow> wstate \<times> pool" where
  "processWorker_head cfg st =
     (case files st of
        [] \<Rightarrow> (Exited, st)
      | file # rest \<Rightarrow>
          (Running file,
           log_if (LOG_LEVEL cfg = verbose) (Processing (relative (SOURCE_ROOT cfg) file))
             (st\<lparr>files := rest\<rparr>)))"

text \<open>\<^verbatim>\<open>fs.unlinkSync(file)\<close> in its own \<^verbatim>\<open>try\<close>: a failure is a warning.\<close>

definition delete_from_holding :: "config \<Rightarrow> path \<Rightarrow> pool \<Rightarrow> pool" where
  "delete_from_holding cfg file st =
     (case unlinkSync (fs st) file of
        Inr fs' \<Rightarrow> log_if (LOG_LEVEL cfg = verbose) (HoldingFileDeleted file) (st\<lparr>fs := fs'\<rparr>)
      | Inl e \<Rightarrow> log (CannotDeleteHoldingFile file (fs_error_code e)) st)"

definition bar_tick :: "pool \<Rightarrow> pool" where
  "bar_tick st = st\<lparr>bar := map_option Suc (bar st)\<rparr>"

text \<open>
  From the return of \<^verbatim>\<open>compressImageWorker\<close> to the \<^verbatim>\<open>await\<close> of the task delay. The
  call, with all its attempts, is taken as one step of the worker: other workers run
  while it waits for the network, but all it shares with them is the file system, where
  it reads its own file and writes its own output path. When it returns \<^verbatim>\<open>undefined\<close>,
  reading \<^verbatim>\<open>result.success\<close> throws a \<^verbatim>\<open>TypeError\<close> into the \<^verbatim>\<open>catch\<close>.
\<close>

definition processWorker_resume ::
  "config \<Rightarrow> remote \<Rightarrow> path \<Rightarrow> bool \<Rightarrow> path \<Rightarrow> pool \<Rightarrow> pool" where
  "processWorker_resume cfg remote outputRoot isRetry file st =
     (let relativePath = relative (SOURCE_ROOT cfg) file in
      case compressImageWorker cfg remote file outputRoot (fs st) of
        (fs1, tries, res) \<Rightarrow>
          bar_tick
            (case res of
               Some r \<Rightarrow>
                 if success r then
                   (let st1 = log_if (LOG_LEVEL cfg = verbose)
                                (ItemCompressed relativePath (originalSize r) (compressedSize r))
                                (st\<lparr>fs := fs1, results_success := results_success st @ [r]\<rparr>)
                    in if isRetry then delete_from_holding cfg file st1 else st1)
                 else
                   log_if (LOG_LEVEL cfg \<noteq> minimal) (ItemFailed relativePath (error r))
                     (st\<lparr>fs := fs1, results_failed := results_failed st @ [r]\<rparr>)
             | None \<Rightarrow>
                 log_if (LOG_LEVEL cfg \<noteq> minimal)
                   (ItemFailed relativePath ''Cannot read properties of undefined (reading 'success')'')
                   (st\<lparr>fs := fs1,
                       results_failed := results_failed st @
                         [Failure None file ''Cannot read properties of undefined (reading 'success')'']\<rparr>)))"

text \<open>
  One step of worker \<open>i\<close>: what it runs when the promise or timer it awaits fires. After
  the task delay the loop test comes next. A settled worker, or an index that names no
  worker, does nothing.
\<close>

definition processWorker_step ::
  "config \<Rightarrow> remote \<Rightarrow> path \<Rightarrow> bool \<Rightarrow> nat \<Rightarrow> pool \<Rightarrow> pool" where
  "processWorker_step cfg remote outputRoot isRetry i st =
     (if i < length (workers st) then
        (case workers st ! i of
           Running file \<Rightarrow>
             (let st' = processWorker_resume cfg remote outputRoot isRetry file st
              in st'\<lparr>workers := (workers st')[i := Waiting]\<rparr>)
         | Waiting \<Rightarrow>
             (case processWorker_head cfg st of
                (w, st') \<Rightarrow> st'\<lparr>workers := (workers st')[i := w]\<rparr>)
         | Exited \<Rightarrow> st
         | Rejected e \<Rightarrow> st)
      else st)"

section \<open>The pool\<close>

text \<open>
  \<^verbatim>\<open>workers.push(processWorker(...))\<close>: the call runs at once up to its first \<^verbatim>\<open>await\<close>,
  so a new worker has passed the loop test when the next one is made.
\<close>

definition start_worker :: "config \<Rightarrow> pool \<Rightarrow> pool" where
  "start_worker cfg st =
     (case processWorker_head cfg st of
        (w, st') \<Rightarrow> st'\<lparr>workers := workers st' @ [w]\<rparr>)"

text \<open>
  \<^verbatim>\<open>for (let i = 0; i < Math.min(allFiles.length, CONFIG.MAX_CONCURRENT); i++)\<close> runs
  its body this many times.
\<close>

definition worker_count :: "int \<Rightarrow> path list \<Rightarrow> nat" where
  "worker_count maxConcurrent allFiles = nat (min (int (length allFiles)) maxConcurrent)"

primrec spawn_workers :: "nat \<Rightarrow> (pool \<Rightarrow> pool) \<Rightarrow> pool \<Rightarrow> pool" where
  "spawn_workers 0 start st = st"
| "spawn_workers (Suc k) start st = spawn_workers k start (start st)"

text \<open>
  \<^verbatim>\<open>await Promise.all(workers)\<close>: rejected as soon as one worker is, fulfilled when all
  have returned, pending until then.
\<close>

datatype join = AllExited | OneRejected js_error | StillPending

fun first_rejected :: "wstate list \<Rightarrow> js_error option" where
  "first_rejected [] = None"
| "first_rejected (Rejected e # _) = Some e"
| "first_rejected (_ # ws) = first_rejected ws"

definition promise_all :: "wstate list \<Rightarrow> join" where
  "promise_all ws =
     (case first_rejected ws of
        Some e \<Rightarrow> OneRejected e
      | None \<Rightarrow> if list_all (\<lambda>w. w = Exited) ws then AllExited else StillPending)"

text \<open>
  The event loop. A schedule lists, in order, the worker whose awaited promise or timer
  fires next; which one does is up to the network and the timers, so every schedule is
  possible. The run ends when \<^verbatim>\<open>Promise.all\<close> is settled, or with the schedule. (What
  workers still running do after a rejection is no longer part of the pass.)
\<close>

fun run_pool :: "(nat \<Rightarrow> pool \<Rightarrow> pool) \<Rightarrow> nat list \<Rightarrow> pool \<Rightarrow> pool" where
  "run_pool step [] st = st"
| "run_pool step (i # sched) st =
     (if promise_all (workers st) = StillPending then run_pool step sched (step i st) else st)"

text \<open>
  The shared part of the two passes: a pool over the found files, with its own queue
  (\<^verbatim>\<open>[...allFiles]\<close>), result arrays and bar.
\<close>

definition new_pool :: "config \<Rightarrow> path list \<Rightarrow> world \<Rightarrow> pool" where
  "new_pool cfg allFiles w =
     \<lparr> fs = fs w, console = console w, files = allFiles,
       results_success = [], results_failed = [],
       bar = (if LOG_LEVEL cfg = normal then Some 0 else None), workers = [] \<rparr>"

definition run_pass ::
  "config \<Rightarrow> remote \<Rightarrow> path \<Rightarrow> bool \<Rightarrow> nat list \<Rightarrow> path list \<Rightarrow> world \<Rightarrow> pool" where
  "run_pass cfg remote outputRoot isRetry sched allFiles w =
     run_pool (processWorker_step cfg remote outputRoot isRetry) sched
       (spawn_workers (worker_count (MAX_CONCURRENT cfg) allFiles) (start_worker cfg)
          (new_pool cfg allFiles w))"

section \<open>The normal pass\<close>

text \<open>
  How an \<^verbatim>\<open>async\<close> function ends: it returns (with the world as it is then), it throws,
  or, when the schedule ends before the workers do, it is still suspended at its
  \<^verbatim>\<open>await\<close>.
\<close>

datatype 'a outcome = Returned 'a world | Threw js_error world | Suspended

text \<open>
  Step 5 of \<^verbatim>\<open>compressFolder\<close>: the body of the loop over \<^verbatim>\<open>results.failed\<close>, a copy in
  its own \<^verbatim>\<open>try\<close>, and the block around it.
\<close>

definition copy_failed_file :: "config \<Rightarrow> world \<Rightarrow> result \<Rightarrow> world" where
  "copy_failed_file cfg w f =
     (let targetPath = path_join (SAVE_FAILED_TO cfg) (basename (filePath f)) in
      case copyFileSync (fs w) (filePath f) targetPath of
        Inr fs' \<Rightarrow>
          log_if (LOG_LEVEL cfg = verbose) (FailedFileCopied (filePath f) targetPath)
            (w\<lparr>fs := fs'\<rparr>)
      | Inl e \<Rightarrow> log (CannotCopyFailedFile (filePath f) (fs_error_code e)) w)"

definition save_failed :: "config \<Rightarrow> result list \<Rightarrow> world \<Rightarrow> fs_error + world" where
  "save_failed cfg failed w =
     (if failed \<noteq> [] then
        (case ensure_dir (fs w) (SAVE_FAILED_TO cfg) of
           Inl e \<Rightarrow> Inl e
         | Inr fs1 \<Rightarrow>
             Inr (log (FailedFilesSavedTo (SAVE_FAILED_TO cfg))
                    (foldl (copy_failed_file cfg) (w\<lparr>fs := fs1\<rparr>) failed)))
      else Inr w)"

text \<open>
  \<^verbatim>\<open>copyUnsupportedFiles(dir, outputRoot)\<close>. The walk follows the tree \<open>n\<close> found at \<open>dir\<close>
  when the walk began; this is what the program sees as long as the output root does
  not lie inside the source root, since then no copy lands in a directory still to be
  read.
\<close>

definition copy_unsupported_file ::
  "config \<Rightarrow> path \<Rightarrow> string \<Rightarrow> path \<Rightarrow> world \<Rightarrow> (fs_error \<times> world) + world" where
  "copy_unsupported_file cfg dir file outputRoot w =
     (let fullPath = path_join dir file;
          target = (if PRESERVE_DIR_STRUCTURE cfg
                    then path_join3 outputRoot (relative (SOURCE_ROOT cfg) (dirname fullPath)) file
                    else path_join outputRoot file)
      in case ensure_dir (fs w) (dirname target) of
           Inl e \<Rightarrow> Inl (e, w)
         | Inr fs1 \<Rightarrow>
             (case copyFileSync fs1 fullPath target of
                Inl e \<Rightarrow> Inl (e, w\<lparr>fs := fs1\<rparr>)
              | Inr fs2 \<Rightarrow>
                  Inr (log_if (LOG_LEVEL cfg = verbose) (UnsupportedFileCopied fullPath target)
                         (w\<lparr>fs := fs2\<rparr>))))"

fun copyUnsupportedFiles ::
  "config \<Rightarrow> path \<Rightarrow> node \<Rightarrow> path \<Rightarrow> world \<Rightarrow> (fs_error \<times> world) + world" where
  "copyUnsupportedFiles cfg dir n outputRoot w =
     (if SKIP_HIDDEN_DIRS cfg \<and> startsWith_dot (basename dir) then Inr w
      else if dir = SAVE_FAILED_TO cfg then Inr w
      else case n of
        File _ \<Rightarrow> Inl (ENOTDIR, w)
      | Dir entries \<Rightarrow>
          fold (\<lambda>(file, child) acc.
                  case acc of
                    Inl ew \<Rightarrow> Inl ew
                  | Inr w' \<Rightarrow>
                      (case child of
                         Dir _ \<Rightarrow> copyUnsupportedFiles cfg (path_join dir file) child outputRoot w'
                       | File _ \<Rightarrow>
                           if \<not> is_supported cfg file
                           then copy_unsupported_file cfg dir file outputRoot w'
                           else Inr w'))
               entries (Inr w))"

text \<open>Steps 2 to 6 of \<^verbatim>\<open>compressFolder\<close>, taken when images were found.\<close>

definition compress_found ::
  "config \<Rightarrow> remote \<Rightarrow> nat list \<Rightarrow> path list \<Rightarrow> world \<Rightarrow> unit outcome" where
  "compress_found cfg remote sched allFiles w =
     (case ensure_dir (fs w) (OUTPUT_ROOT cfg) of
        Inl e \<Rightarrow> Threw (fs_js_error e) w
      | Inr fs1 \<Rightarrow>
          (let st = run_pass cfg remote (OUTPUT_ROOT cfg) False sched allFiles (w\<lparr>fs := fs1\<rparr>) in
           case promise_all (workers st) of
             StillPending \<Rightarrow> Suspended
           | OneRejected e \<Rightarrow> Threw e (world_of st)
           | AllExited \<Rightarrow>
               (case save_failed cfg (results_failed st) (world_of st) of
                  Inl e \<Rightarrow> Threw (fs_js_error e) (world_of st)
                | Inr w2 \<Rightarrow>
                    Returned ()
                      (log (Summary (length (results_success st)) (length (results_failed st))
                              (sum_list (map originalSize (results_success st)))
                              (sum_list (map compressedSize (results_success st)))) w2))))"

text \<open>
  Step 7 and the closing messages. (The source root was found at the start of
  \<^verbatim>\<open>compressFolder\<close> and no step removes it.)
\<close>

definition copy_rest :: "config \<Rightarrow> world \<Rightarrow> unit outcome" where
  "copy_rest cfg w =
     (case (if COPY_UNSUPPORTED_TO_OUTPUT cfg then
              (case lookup (fs w) (SOURCE_ROOT cfg) of
                 None \<Rightarrow> Inl (ENOENT, w)
               | Some n \<Rightarrow> copyUnsupportedFiles cfg (SOURCE_ROOT cfg) n (OUTPUT_ROOT cfg) w)
            else Inr w) of
        Inl (e, w') \<Rightarrow> Threw (fs_js_error e) w'
      | Inr w' \<Rightarrow> Returned () (log (FirstPassDone (OUTPUT_ROOT cfg)) (log UnsupportedCopyDone w')))"

text \<open>
  \<^verbatim>\<open>compressFolder\<close> of \<^verbatim>\<open>index.js\<close>. A missing source root is reported on the console
  and the function returns.
\<close>

definition compressFolder :: "config \<Rightarrow> remote \<Rightarrow> nat list \<Rightarrow> world \<Rightarrow> unit outcome" where
  "compressFolder cfg remote sched w0 =
     (let w = log Banner w0 in
      case lookup (fs w) (SOURCE_ROOT cfg) of
        None \<Rightarrow> Returned () (log (SourceRootMissing (SOURCE_ROOT cfg)) w)
      | Some n \<Rightarrow>
          (case getAllImageFiles cfg (SOURCE_ROOT cfg) n of
             Inl e \<Rightarrow> Threw (fs_js_error e) w
           | Inr allFiles \<Rightarrow>
               (case (if allFiles = [] then Returned () (log NoImagesFound w)
                      else compress_found cfg remote sched allFiles w) of
                  Returned _ w1 \<Rightarrow> copy_rest cfg w1
                | Threw e w1 \<Rightarrow> Threw e w1
                | Suspended \<Rightarrow> Suspended)))"

section \<open>The recovery pass\<close>

text \<open>
  \<^verbatim>\<open>retryFailedFolder\<close>: the files of the holding directory, compressed again.
  \<open>failed_files\<close> is its \<^verbatim>\<open>.filter(...).map(...)\<close> over the listing.
\<close>

definition failed_files :: "config \<Rightarrow> string list \<Rightarrow> path list" where
  "failed_files cfg names =
     map (path_join (SAVE_FAILED_TO cfg)) (filter (is_supported cfg) names)"

definition retryFailedFolder :: "config \<Rightarrow> remote \<Rightarrow> nat list \<Rightarrow> world \<Rightarrow> unit outcome" where
  "retryFailedFolder cfg remote sched w =
     (let retrySource = SAVE_FAILED_TO cfg; retryOutput = OUTPUT_ROOT cfg in
      if \<not> existsSync (fs w) retrySource then Returned () (log NoHoldingDirectory w)
      else case readdirSync (fs w) retrySource of
        Inl e \<Rightarrow> Threw (fs_js_error e) w
      | Inr names \<Rightarrow>
          (let failedFiles = failed_files cfg names in
           if failedFiles = [] then Returned () (log NothingToRetry w)
           else
             (let st = run_pass cfg remote retryOutput True sched failedFiles
                         (log (RetryStarted (length failedFiles)) w) in
              case promise_all (workers st) of
                StillPending \<Rightarrow> Suspended
              | OneRejected e \<Rightarrow> Threw e (world_of st)
              | AllExited \<Rightarrow>
                  Returned ()
                    (log (if results_failed st \<noteq> [] then StillFailing else AllRecovered)
                       (log (RetryFinished (length (results_success st))
                               (length (results_failed st))) (world_of st))))))"

section \<open>The program\<close>

text \<open>
  The entry point: \<open>retryOnly\<close> is \<^verbatim>\<open>args.includes('--retry-failed')\<close>, and the two schedules
  are those of the two passes. An error thrown in either pass is caught and printed.
\<close>

definition report_error :: "unit outcome \<Rightarrow> unit outcome" where
  "report_error out =
     (case out of
        Threw err w \<Rightarrow> Returned () (log (FatalError err) w)
      | Returned _ w \<Rightarrow> Returned () w
      | Suspended \<Rightarrow> Suspended)"

definition main ::
  "bool \<Rightarrow> config \<Rightarrow> remote \<Rightarrow> nat list \<Rightarrow> nat list \<Rightarrow> world \<Rightarrow> unit outcome" where
  "main retryOnly cfg remote sched1 sched2 w =
     report_error
       (if retryOnly then retryFailedFolder cfg remote sched2 (log RetryOnlyMode w)
        else (case compressFolder cfg remote sched1 w of
                Returned _ w1 \<Rightarrow> retryFailedFolder cfg remote sched2 w1
              | Threw e w1 \<Rightarrow> Threw e w1
              | Suspended \<Rightarrow> Suspended))"

section \<open>The editor extension\<close>

text \<open>
  The extension (\<^verbatim>\<open>extension.js\<close>) has the same worker and pool, fed from the settings
  \<^verbatim>\<open>getConfig()\<close> reads instead of \<^verbatim>\<open>CONFIG\<close>, and no holding directory.
\<close>

record ext_config =
  maxConcurrent :: int
  maxRetries :: int
  preserveStructure :: bool
  copyUnsupported :: bool
  outputSuffix :: string

text \<open>The defaults of \<^verbatim>\<open>getConfig\<close>.\<close>

definition getConfig_defaults :: ext_config where
  "getConfig_defaults =
     \<lparr> maxConcurrent = 3, maxRetries = 2, preserveStructure = True, copyUnsupported = True,
       outputSuffix = ''_compressed'' \<rparr>"

text \<open>
  Its \<^verbatim>\<open>compressImageWorker(filePath, sourceRoot, outputRoot, config)\<close> is that of
  \<^verbatim>\<open>index.js\<close> line by line, reading \<^verbatim>\<open>config.maxRetries\<close>, \<^verbatim>\<open>config.preserveStructure\<close> and
  \<^verbatim>\<open>sourceRoot\<close> where the other reads \<^verbatim>\<open>CONFIG\<close>. So it is the same function at the
  configuration with these values (the remaining fields are not read).
\<close>

definition ext_as_config :: "ext_config \<Rightarrow> path \<Rightarrow> path \<Rightarrow> config" where
  "ext_as_config config sourceRoot outputRoot =
     \<lparr> SOURCE_ROOT = sourceRoot,
       OUTPUT_ROOT = outputRoot,
       SUPPORTED_FORMATS = [''.jpg'', ''.jpeg'', ''.png'', ''.webp''],
       MAX_CONCURRENT = maxConcurrent config,
       MAX_RETRIES = maxRetries config,
       LOG_LEVEL = minimal,
       PRESERVE_DIR_STRUCTURE = preserveStructure config,
       SKIP_HIDDEN_DIRS = True,
       COPY_UNSUPPORTED_TO_OUTPUT = copyUnsupported config,
       SAVE_FAILED_TO = outputRoot \<rparr>"

definition compressImageWorker_ext ::
  "ext_config \<Rightarrow> remote \<Rightarrow> path \<Rightarrow> path \<Rightarrow> path \<Rightarrow> node
     \<Rightarrow> node \<times> (js_error + result) list \<times> result option" where
  "compressImageWorker_ext config remote file sourceRoot outputRoot t =
     compressImageWorker (ext_as_config config sourceRoot outputRoot) remote file outputRoot t"

text \<open>
  \<^verbatim>\<open>getAllImageFiles(dir, outputDir = '')\<close> of the extension; \<open>None\<close> is the empty default.
  An error of \<^verbatim>\<open>readdirSync\<close> is caught and what was found so far is returned.
\<close>

fun getAllImageFiles_ext :: "path \<Rightarrow> node \<Rightarrow> path option \<Rightarrow> path list" where
  "getAllImageFiles_ext dir n outputDir =
     (if startsWith_dot (basename dir) then []
      else if outputDir = Some dir then []
      else case n of
        File _ \<Rightarrow> []
      | Dir entries \<Rightarrow>
          concat (map (\<lambda>(file, child).
            let fullPath = path_join dir file in
            (case child of
               Dir _ \<Rightarrow> getAllImageFiles_ext fullPath child outputDir
             | File _ \<Rightarrow>
                 if toLowerCase (extname file) \<in> set [''.jpg'', ''.jpeg'', ''.png'', ''.webp'']
                 then [fullPath] else [])) entries))"

text \<open>
  \<^verbatim>\<open>copyUnsupportedFiles(dir, sourceRoot, outputRoot, config)\<close> of the extension: the loop
  over a directory is in one \<^verbatim>\<open>try\<close>, so a failed copy ends the loop over that directory
  (\<open>Inl\<close>) and the function returns.
\<close>

fun copyUnsupportedFiles_ext ::
  "ext_config \<Rightarrow> path \<Rightarrow> node \<Rightarrow> path \<Rightarrow> path \<Rightarrow> world \<Rightarrow> world" where
  "copyUnsupportedFiles_ext config dir n sourceRoot outputRoot w =
     (if startsWith_dot (basename dir) then w
      else if dir = outputRoot then w
      else case n of
        File _ \<Rightarrow> w
      | Dir entries \<Rightarrow>
          (case fold (\<lambda>(file, child) acc.
                  case acc of
                    Inl w' \<Rightarrow> Inl w'
                  | Inr w' \<Rightarrow>
                      (case child of
                         Dir _ \<Rightarrow>
                           Inr (copyUnsupportedFiles_ext config (path_join dir file) child
                                  sourceRoot outputRoot w')
                       | File _ \<Rightarrow>
                           if \<not> is_supported (ext_as_config config sourceRoot outputRoot) file
                           then (case copy_unsupported_file
                                        (ext_as_config config sourceRoot outputRoot)
                                        dir file outputRoot w' of
                                   Inl (e, w'') \<Rightarrow> Inl w''
                                 | Inr w'' \<Rightarrow> Inr w'')
                           else Inr w'))
               entries (Inr w) of
             Inl w' \<Rightarrow> w'
           | Inr w' \<Rightarrow> w'))"

text \<open>
  \<^verbatim>\<open>processWorker\<close> of the extension. After the \<^verbatim>\<open>try\<close> statement it calls
  \<^verbatim>\<open>progressCallback(relativePath, result?.success || false)\<close>; \<^verbatim>\<open>result\<close> is a \<^verbatim>\<open>const\<close>
  of the \<^verbatim>\<open>try\<close> block and not in scope there, so evaluating the argument throws a
  \<^verbatim>\<open>ReferenceError\<close> out of the worker whenever a callback was passed.
\<close>

definition processWorker_ext_head :: "pool \<Rightarrow> wstate \<times> pool" where
  "processWorker_ext_head st =
     (case files st of
        [] \<Rightarrow> (Exited, st)
      | file # rest \<Rightarrow> (Running file, st\<lparr>files := rest\<rparr>))"

definition processWorker_ext_resume ::
  "ext_config \<Rightarrow> remote \<Rightarrow> path \<Rightarrow> path \<Rightarrow> bool \<Rightarrow> path \<Rightarrow> pool \<Rightarrow> wstate \<times> pool" where
  "processWorker_ext_resume config remote sourceRoot outputRoot progressCallback file st =
     (case compressImageWorker_ext config remote file sourceRoot outputRoot (fs st) of
        (fs1, tries, res) \<Rightarrow>
          (let st1 =
             (case res of
                Some r \<Rightarrow>
                  if success r
                  then st\<lparr>fs := fs1, results_success := results_success st @ [r]\<rparr>
                  else st\<lparr>fs := fs1, results_failed := results_failed st @ [r]\<rparr>
              | None \<Rightarrow>
                  st\<lparr>fs := fs1,
                     results_failed := results_failed st @
                       [Failure None file ''Cannot read properties of undefined (reading 'success')'']\<rparr>)
           in if progressCallback
              then (Rejected (JsError None False ''result is not defined''), st1)
              else (Waiting, st1)))"

definition processWorker_ext_step ::
  "ext_config \<Rightarrow> remote \<Rightarrow> path \<Rightarrow> path \<Rightarrow> bool \<Rightarrow> nat \<Rightarrow> pool \<Rightarrow> pool" where
  "processWorker_ext_step config remote sourceRoot outputRoot progressCallback i st =
     (if i < length (workers st) then
        (case workers st ! i of
           Running file \<Rightarrow>
             (case processWorker_ext_resume config remote sourceRoot outputRoot
                     progressCallback file st of
                (w, st') \<Rightarrow> st'\<lparr>workers := (workers st')[i := w]\<rparr>)
         | Waiting \<Rightarrow>
             (case processWorker_ext_head st of
                (w, st') \<Rightarrow> st'\<lparr>workers := (workers st')[i := w]\<rparr>)
         | Exited \<Rightarrow> st
         | Rejected e \<Rightarrow> st)
      else st)"

definition start_worker_ext :: "pool \<Rightarrow> pool" where
  "start_worker_ext st =
     (case processWorker_ext_head st of
        (w, st') \<Rightarrow> st'\<lparr>workers := workers st' @ [w]\<rparr>)"

text \<open>
  \<^verbatim>\<open>compressFolder(sourceDir)\<close> of the extension. The output directory is
  \<^verbatim>\<open>sourceDir + config.outputSuffix\<close>: the suffix (without separators) lengthens the last
  segment. The function always passes a \<^verbatim>\<open>progressCallback\<close>.
\<close>

definition add_suffix :: "path \<Rightarrow> string \<Rightarrow> path" where
  "add_suffix sourceDir sfx =
     (if sourceDir = [] then [sfx] else butlast sourceDir @ [last sourceDir @ sfx])"

datatype report =
    NothingFound
  | Report (report_success: "result list") (report_failed: "result list")
      (report_outputDir: path) (report_totalOriginal: nat) (report_totalCompressed: nat)

definition run_pass_ext ::
  "ext_config \<Rightarrow> remote \<Rightarrow> path \<Rightarrow> path \<Rightarrow> nat list \<Rightarrow> path list \<Rightarrow> world \<Rightarrow> pool" where
  "run_pass_ext config remote sourceDir outputDir sched allFiles w =
     run_pool (processWorker_ext_step config remote sourceDir outputDir True) sched
       (spawn_workers (worker_count (maxConcurrent config) allFiles) start_worker_ext
          \<lparr> fs = fs w, console = console w, files = allFiles,
            results_success = [], results_failed = [], bar = None, workers = [] \<rparr>)"

definition compressFolder_ext ::
  "ext_config \<Rightarrow> remote \<Rightarrow> nat list \<Rightarrow> path \<Rightarrow> world \<Rightarrow> report outcome" where
  "compressFolder_ext config remote sched sourceDir w =
     (if \<not> existsSync (fs w) sourceDir
      then Threw (JsError None False ''source directory does not exist'') w
      else
        (let outputDir = add_suffix sourceDir (outputSuffix config) in
         case ensure_dir (fs w) outputDir of
           Inl e \<Rightarrow> Threw (fs_js_error e) w
         | Inr fs1 \<Rightarrow>
             (let allFiles = (case lookup fs1 sourceDir of
                                None \<Rightarrow> []
                              | Some n \<Rightarrow> getAllImageFiles_ext sourceDir n (Some outputDir))
              in if allFiles = [] then Returned NothingFound (w\<lparr>fs := fs1\<rparr>)
                 else
                   (let st = run_pass_ext config remote sourceDir outputDir sched allFiles
                               (w\<lparr>fs := fs1\<rparr>)
                    in case promise_all (workers st) of
                         StillPending \<Rightarrow> Suspended
                       | OneRejected e \<Rightarrow> Threw e (world_of st)
                       | AllExited \<Rightarrow>
                           Returned
                             (Report (results_success st) (results_failed st) outputDir
                                (sum_list (map originalSize (results_success st)))
                                (sum_list (map compressedSize (results_success st))))
                             (if copyUnsupported config
                              then (case lookup (fs st) sourceDir of
                                      None \<Rightarrow> world_of st
                                    | Some n \<Rightarrow>
                                        copyUnsupportedFiles_ext config sourceDir n
                                          sourceDir outputDir (world_of st))
                              else world_of st)))))"

section \<open>Accounting for the items of a pass\<close>

text \<open>
  Where an item of a pass can be: still in the queue, in the hands of a worker, or
  recorded in one of the two result arrays.
\<close>

fun in_flight :: "wstate \<Rightarrow> path list" where
  "in_flight (Running file) = [file]"
| "in_flight _ = []"

definition records :: "pool \<Rightarrow> result list" where
  "records st = results_success st @ results_failed st"

definition accounted :: "pool \<Rightarrow> path multiset" where
  "accounted st =
     mset (files st) + mset (concat (map in_flight (workers st))) + mset (map filePath (records st))"

text \<open>No worker is rejected, and a worker that has left saw the queue empty.\<close>

definition sound_workers :: "pool \<Rightarrow> bool" where
  "sound_workers st =
     (first_rejected (workers st) = None \<and> (Exited \<in> set (workers st) \<longrightarrow> files st = []))"

text \<open>In the extension's pool every worker is at its first file or is rejected.\<close>

definition stuck_workers :: "pool \<Rightarrow> bool" where
  "stuck_workers st =
     (\<forall>wk \<in> set (workers st). (\<exists>f. wk = Running f) \<or> (\<exists>e. wk = Rejected e))"

text \<open>The work left in a pool: it shrinks with every step of an unsettled worker.\<close>

fun weight :: "wstate \<Rightarrow> nat" where
  "weight (Running _) = 2"
| "weight Waiting = 1"
| "weight _ = 0"

definition potential :: "pool \<Rightarrow> nat" where
  "potential st = 3 * length (files st) + sum_list (map weight (workers st))"

text \<open>A directory \<open>d\<close> lies on the way from \<open>dir\<close> down to the file \<open>p\<close>.\<close>

definition on_the_way :: "path \<Rightarrow> path \<Rightarrow> path \<Rightarrow> bool" where
  "on_the_way dir d p = (prefix dir d \<and> strict_prefix d p)"

text \<open>
  A directory the walk of \<^verbatim>\<open>getAllImageFiles\<close> does not enter, and what the walk does
  with one entry of a directory it reads.
\<close>

definition skipped :: "config \<Rightarrow> path \<Rightarrow> bool" where
  "skipped cfg d =
     ((SKIP_HIDDEN_DIRS cfg \<and> startsWith_dot (basename d)) \<or> d = SAVE_FAILED_TO cfg)"

definition scan_entry :: "config \<Rightarrow> path \<Rightarrow> string \<times> node \<Rightarrow> fs_error + path list" where
  "scan_entry cfg dir e =
     (case snd e of
        Dir _ \<Rightarrow> getAllImageFiles cfg (dir @ [fst e]) (snd e)
      | File _ \<Rightarrow> if is_supported cfg (fst e) then Inr [dir @ [fst e]] else Inr [])"

definition skipped_ext :: "path option \<Rightarrow> path \<Rightarrow> bool" where
  "skipped_ext outputDir d = (startsWith_dot (basename d) \<or> outputDir = Some d)"

definition scan_entry_ext :: "path \<Rightarrow> path option \<Rightarrow> string \<times> node \<Rightarrow> path list" where
  "scan_entry_ext dir outputDir e =
     (case snd e of
        Dir _ \<Rightarrow> getAllImageFiles_ext (dir @ [fst e]) (snd e) outputDir
      | File _ \<Rightarrow>
          if toLowerCase (extname (fst e)) \<in> set [''.jpg'', ''.jpeg'', ''.png'', ''.webp'']
          then [dir @ [fst e]] else [])"

text \<open>The console \<open>c'\<close> continues \<open>c\<close> without printing the banner of the normal pass.\<close>

definition no_banner_since :: "msg list \<Rightarrow> msg list \<Rightarrow> bool" where
  "no_banner_since c c' = (prefix c c' \<and> Banner \<notin> set (drop (length c) c'))"

text \<open>The entries of the holding directory, as paths.\<close>

definition holding_entries :: "config \<Rightarrow> node \<Rightarrow> path list" where
  "holding_entries cfg t =
     (case lookup t (SAVE_FAILED_TO cfg) of
        Some (Dir es) \<Rightarrow> map (\<lambda>e. path_join (SAVE_FAILED_TO cfg) (fst e)) es
      | _ \<Rightarrow> [])"

text \<open>
  The messages of a recovery pass over \<open>items\<close>: its own opening and closing lines, with
  counts no larger than the number of items, and lines about one of the items, which name
  it by its path or by its path relative to the source root. No message of the normal
  pass and no fatal error is among them.
\<close>

fun recovery_msg :: "config \<Rightarrow> path list \<Rightarrow> msg \<Rightarrow> bool" where
  "recovery_msg cfg items RetryOnlyMode = True"
| "recovery_msg cfg items NoHoldingDirectory = True"
| "recovery_msg cfg items NothingToRetry = True"
| "recovery_msg cfg items (RetryStarted n) = (n \<le> length items)"
| "recovery_msg cfg items (RetryFinished s f) = (s + f \<le> length items)"
| "recovery_msg cfg items StillFailing = True"
| "recovery_msg cfg items AllRecovered = True"
| "recovery_msg cfg items (Processing r) = (r \<in> set (map (relative (SOURCE_ROOT cfg)) items))"
| "recovery_msg cfg items (ItemCompressed r a b) = (r \<in> set (map (relative (SOURCE_ROOT cfg)) items))"
| "recovery_msg cfg items (ItemFailed r e) = (r \<in> set (map (relative (SOURCE_ROOT cfg)) items))"
| "recovery_msg cfg items (HoldingFileDeleted p) = (p \<in> set items)"
| "recovery_msg cfg items (CannotDeleteHoldingFile p e) = (p \<in> set items)"
| "recovery_msg cfg items _ = False"

text \<open>The console \<open>c'\<close> continues \<open>c\<close> with messages that all satisfy \<open>P\<close>.\<close>

definition only_logged :: "(msg \<Rightarrow> bool) \<Rightarrow> msg list \<Rightarrow> msg list \<Rightarrow> bool" where
  "only_logged P c c' = (prefix c c' \<and> list_all P (drop (length c) c'))"

section \<open>Properties\<close>

subsection \<open>Paths and names\<close>

lemma extname_examples:
  "extname ''a.png'' = ''.png''" "extname ''.png'' = []" "extname ''a.b.JPG'' = ''.JPG''"
  "extname ''..'' = []" "extname ''a.'' = ''.''" "extname ''noext'' = []"
  by (simp_all add: extname_def)

lemma toLowerCase_example: "toLowerCase ''.JpEg'' = ''.jpeg''"
  by (simp add: toLowerCase_def toLowerCase_char_def)

lemma join3_example:
  "path_join3 [''x'', ''compressed_results''] (relative [''x'', ''static''] [''x'', ''failed_images'']) ''a.png''
     = [''x'', ''failed_images'', ''a.png'']"
  by (simp add: path_join3_def normalize_path_def normalize_step_def)

subsection \<open>The retry loop\<close>

lemma attempt_Inr_success:
  "attempt cfg remote fp outputRoot n t = (t', Inr r) \<Longrightarrow> success r"
  by (auto simp: attempt_def Let_def split: sum.splits reply.splits)

lemma loop_facts:
  "compressImageWorker_loop cfg remote fp outputRoot rc t = (t', tries, res) \<Longrightarrow>
   length tries \<le> nat (MAX_RETRIES cfg + 1 - rc) \<and>
   (rc \<le> MAX_RETRIES cfg \<longrightarrow> tries \<noteq> [] \<and> res \<noteq> None) \<and>
   (\<forall>r \<in> set (butlast tries). \<exists>e. r = Inl e) \<and>
   (\<forall>name p msg. res = Some (Failure name p msg) \<longrightarrow>
      length tries = nat (MAX_RETRIES cfg + 1 - rc) \<and> name = Some (basename fp) \<and> p = fp \<and>
      (\<exists>err. last tries = Inl err \<and> msg = errorDetails err))"
proof (induction cfg remote fp outputRoot rc t arbitrary: t' tries res
        rule: compressImageWorker_loop.induct)
  case (1 cfg remote fp outputRoot rc t)
  show ?case
  proof (cases "rc \<le> MAX_RETRIES cfg")
    case False
    with "1.prems" show ?thesis
      by (simp add: compressImageWorker_loop.simps)
  next
    case le: True
    obtain t1 out where att: "attempt cfg remote fp outputRoot (nat rc) t = (t1, out)"
      by (cases "attempt cfg remote fp outputRoot (nat rc) t")
    show ?thesis
    proof (cases out)
      case (Inr r)
      with att le "1.prems" attempt_Inr_success[of cfg remote fp outputRoot "nat rc" t t1 r]
      show ?thesis
        by (auto simp: compressImageWorker_loop.simps[of cfg remote fp outputRoot rc t])
    next
      case (Inl err)
      show ?thesis
      proof (cases "rc + 1 > MAX_RETRIES cfg")
        case True
        with att le Inl "1.prems" show ?thesis
          by (auto simp: compressImageWorker_loop.simps[of cfg remote fp outputRoot rc t])
      next
        case False
        obtain t2 tries2 res2 where rec:
          "compressImageWorker_loop cfg remote fp outputRoot (rc + 1) t1 = (t2, tries2, res2)"
          by (cases "compressImageWorker_loop cfg remote fp outputRoot (rc + 1) t1") auto
        note ih = "1.IH"[OF le att[symmetric] Inl False rec]
        from att le Inl False rec "1.prems"
        have eqs: "t' = t2" "tries = Inl err # tries2" "res = res2"
          by (auto simp: compressImageWorker_loop.simps[of cfg remote fp outputRoot rc t])
        from False have ne: "tries2 \<noteq> []" using ih by auto
        show ?thesis using ih eqs ne False le by (auto simp: nat_add_distrib)
      qed
    qed
  qed
qed

text \<open>
  Claim C3. With \<^verbatim>\<open>MAX_RETRIES\<close> at least 0, the retry loop of \<^verbatim>\<open>compressImageWorker\<close>
  runs its \<^verbatim>\<open>try\<close> block at least once and at most \<^verbatim>\<open>MAX_RETRIES + 1\<close> times, and always
  returns a record; with \<^verbatim>\<open>MAX_RETRIES = 0\<close> it runs it exactly once. Every attempt but
  the last one ended in an error. A failure record is returned only after
  \<^verbatim>\<open>MAX_RETRIES + 1\<close> attempts, and its \<^verbatim>\<open>error\<close> is the classification of the error of
  the last attempt.
\<close>

theorem compressImageWorker_retry_bound:
  assumes "0 \<le> MAX_RETRIES cfg"
    and "compressImageWorker cfg remote fp outputRoot t = (t', tries, res)"
  shows "1 \<le> length tries \<and> length tries \<le> nat (MAX_RETRIES cfg) + 1 \<and>
         (MAX_RETRIES cfg = 0 \<longrightarrow> length tries = 1) \<and>
         res \<noteq> None \<and>
         (\<forall>r \<in> set (butlast tries). \<exists>e. r = Inl e) \<and>
         (\<forall>name p msg. res = Some (Failure name p msg) \<longrightarrow>
            length tries = nat (MAX_RETRIES cfg) + 1 \<and>
            (\<exists>err. last tries = Inl err \<and> msg = errorDetails err))"
proof -
  note f = loop_facts[OF assms(2)[unfolded compressImageWorker_def]]
  from f assms(1) have ne: "tries \<noteq> []" and some: "res \<noteq> None" by auto
  from f assms(1) have le: "length tries \<le> nat (MAX_RETRIES cfg) + 1"
    by (simp add: nat_add_distrib)
  from ne have one: "1 \<le> length tries" by (cases tries) auto
  from f have fail: "\<forall>name p msg. res = Some (Failure name p msg) \<longrightarrow>
            length tries = nat (MAX_RETRIES cfg) + 1 \<and>
            (\<exists>err. last tries = Inl err \<and> msg = errorDetails err)"
    using assms(1) by (auto simp: nat_add_distrib)
  from f have bl: "\<forall>r \<in> set (butlast tries). \<exists>e. r = Inl e" by blast
  from one le have zero: "MAX_RETRIES cfg = 0 \<longrightarrow> length tries = 1" by auto
  from one le zero some bl fail show ?thesis by blast
qed

text \<open>
  The theorem at work: the service answers every upload of \<^verbatim>\<open>a.png\<close> with an HTTP
  error whose status grows with the attempt. Under the written configuration
  (\<^verbatim>\<open>MAX_RETRIES = 2\<close>) there are three attempts and the failure reports status 502, that
  of the third.
\<close>

theorem compressImageWorker_retry_bound_witness:
  "0 \<le> MAX_RETRIES (CONFIG [''app''] 4) \<and>
   compressImageWorker (CONFIG [''app''] 4)
       (\<lambda>p n. StoreFailed (JsError (Some (500 + n, ''busy'')) True []))
       [''app'', ''static'', ''a.png''] [''app'', ''compressed_results'']
       (Dir [(''app'', Dir [(''static'', Dir [(''a.png'', File ''abc'')])])])
     = (Dir [(''app'', Dir [(''static'', Dir [(''a.png'', File ''abc'')])])],
        [Inl (JsError (Some (500, ''busy'')) True []),
         Inl (JsError (Some (501, ''busy'')) True []),
         Inl (JsError (Some (502, ''busy'')) True [])],
        Some (Failure (Some ''a.png'') [''app'', ''static'', ''a.png''] ''HTTP 502: busy'')) \<and>
   length [Inl (JsError (Some (500, ''busy'')) True []),
           Inl (JsError (Some (501, ''busy'')) True []),
           Inl (JsError (Some (502, ''busy'')) True []) :: js_error + result]
     = nat (MAX_RETRIES (CONFIG [''app''] 4)) + 1 \<and>
   ''HTTP 502: busy'' = errorDetails (JsError (Some (502, ''busy'')) True [])"
proof -
  have h1: "0 \<le> MAX_RETRIES (CONFIG [''app''] 4)"
    by (simp add: CONFIG_def)
  have h2: "compressImageWorker (CONFIG [''app''] 4)
       (\<lambda>p n. StoreFailed (JsError (Some (500 + n, ''busy'')) True []))
       [''app'', ''static'', ''a.png''] [''app'', ''compressed_results'']
       (Dir [(''app'', Dir [(''static'', Dir [(''a.png'', File ''abc'')])])])
     = (Dir [(''app'', Dir [(''static'', Dir [(''a.png'', File ''abc'')])])],
        [Inl (JsError (Some (500, ''busy'')) True []),
         Inl (JsError (Some (501, ''busy'')) True []),
         Inl (JsError (Some (502, ''busy'')) True [])],
        Some (Failure (Some ''a.png'') [''app'', ''static'', ''a.png''] ''HTTP 502: busy''))"
    by code_simp
  from compressImageWorker_retry_bound[OF h1 h2] h1 h2 show ?thesis
    by simp
qed

subsection \<open>The pool\<close>

lemma attempt_filePath:
  "attempt cfg remote fp outputRoot n t = (t', Inr r) \<Longrightarrow> filePath r = fp"
  by (auto simp: attempt_def Let_def split: sum.splits reply.splits)

lemma loop_filePath:
  "compressImageWorker_loop cfg remote fp outputRoot rc t = (t', tries, Some r) \<Longrightarrow>
   filePath r = fp"
proof (induction cfg remote fp outputRoot rc t arbitrary: t' tries r
        rule: compressImageWorker_loop.induct)
  case (1 cfg remote fp outputRoot rc t)
  show ?case
  proof (cases "rc \<le> MAX_RETRIES cfg")
    case False
    with "1.prems" show ?thesis by (simp add: compressImageWorker_loop.simps)
  next
    case le: True
    obtain t1 out where att: "attempt cfg remote fp outputRoot (nat rc) t = (t1, out)"
      by (cases "attempt cfg remote fp outputRoot (nat rc) t")
    show ?thesis
    proof (cases out)
      case (Inr r')
      with att le "1.prems" attempt_filePath[of cfg remote fp outputRoot "nat rc" t t1 r']
      show ?thesis
        by (auto simp: compressImageWorker_loop.simps[of cfg remote fp outputRoot rc t])
    next
      case (Inl err)
      show ?thesis
      proof (cases "rc + 1 > MAX_RETRIES cfg")
        case True
        with att le Inl "1.prems" show ?thesis
          by (auto simp: compressImageWorker_loop.simps[of cfg remote fp outputRoot rc t])
      next
        case False
        obtain t2 tries2 res2 where rec:
          "compressImageWorker_loop cfg remote fp outputRoot (rc + 1) t1 = (t2, tries2, res2)"
          by (cases "compressImageWorker_loop cfg remote fp outputRoot (rc + 1) t1") auto
        from att le Inl False rec "1.prems" have "res2 = Some r"
          by (auto simp: compressImageWorker_loop.simps[of cfg remote fp outputRoot rc t])
        with "1.IH"[OF le att[symmetric] Inl False] rec show ?thesis by simp
      qed
    qed
  qed
qed

lemma log_fields [simp]:
  "fs (log m w) = fs w" "console (log m w) = console w @ [m]"
  by (simp_all add: log_def)

lemma log_pool_fields [simp]:
  "files (log m st) = files st" "workers (log m st) = workers st"
  "results_success (log m st) = results_success st"
  "results_failed (log m st) = results_failed st" "bar (log m st) = bar st"
  by (simp_all add: log_def)

lemma log_if_fields [simp]:
  "fs (log_if b m w) = fs w"
  by (simp_all add: log_if_def)

lemma log_if_pool_fields [simp]:
  "files (log_if b m st) = files st" "workers (log_if b m st) = workers st"
  "results_success (log_if b m st) = results_success st"
  "results_failed (log_if b m st) = results_failed st" "bar (log_if b m st) = bar st"
  by (simp_all add: log_if_def)

lemma delete_from_holding_fields [simp]:
  "files (delete_from_holding cfg f st) = files st"
  "workers (delete_from_holding cfg f st) = workers st"
  "results_success (delete_from_holding cfg f st) = results_success st"
  "results_failed (delete_from_holding cfg f st) = results_failed st"
  "bar (delete_from_holding cfg f st) = bar st"
  by (simp_all add: delete_from_holding_def split: sum.splits)

lemma bar_tick_fields [simp]:
  "files (bar_tick st) = files st" "workers (bar_tick st) = workers st"
  "results_success (bar_tick st) = results_success st"
  "results_failed (bar_tick st) = results_failed st"
  "fs (bar_tick st) = fs st" "console (bar_tick st) = console st"
  by (simp_all add: bar_tick_def)

lemma resume_effect:
  "files (processWorker_resume cfg remote out isRetry f st) = files st \<and>
   workers (processWorker_resume cfg remote out isRetry f st) = workers st \<and>
   (\<exists>r. filePath r = f \<and>
      mset (records (processWorker_resume cfg remote out isRetry f st)) = add_mset r (mset (records st)) \<and>
      length (results_success (processWorker_resume cfg remote out isRetry f st)) +
      length (results_failed (processWorker_resume cfg remote out isRetry f st)) =
        Suc (length (results_success st) + length (results_failed st)))"
proof -
  obtain t1 tries res where c: "compressImageWorker cfg remote f out (fs st) = (t1, tries, res)"
    by (cases "compressImageWorker cfg remote f out (fs st)") auto
  show ?thesis
  proof (cases res)
    case None
    with c show ?thesis
      by (simp add: processWorker_resume_def records_def)
  next
    case (Some r)
    with c have fp: "filePath r = f"
      using loop_filePath[of cfg remote f out 0 "fs st" t1 tries r]
      by (simp add: compressImageWorker_def)
    with c Some show ?thesis
      by (auto simp: processWorker_resume_def records_def Let_def)
  qed
qed


lemma head_effect:
  "processWorker_head cfg st = (w, st') \<Longrightarrow>
   workers st' = workers st \<and> records st' = records st \<and>
   results_success st' = results_success st \<and> results_failed st' = results_failed st \<and>
   ((files st = [] \<and> files st' = [] \<and> w = Exited) \<or>
    (\<exists>f. files st = f # files st' \<and> w = Running f))"
  by (auto simp: processWorker_head_def records_def split: list.splits)

lemma flying_update:
  "i < length ws \<Longrightarrow>
   mset (concat (map in_flight (ws[i := w]))) + mset (in_flight (ws ! i)) =
   mset (concat (map in_flight ws)) + mset (in_flight w)"
proof (induction ws arbitrary: i)
  case Nil
  then show ?case by simp
next
  case (Cons a ws)
  then show ?case by (cases i) (auto simp: add.assoc add.left_commute)
qed

lemma weight_update:
  "i < length ws \<Longrightarrow>
   sum_list (map weight (ws[i := w])) + weight (ws ! i) = sum_list (map weight ws) + weight w"
proof (induction ws arbitrary: i)
  case Nil
  then show ?case by simp
next
  case (Cons a ws)
  then show ?case by (cases i) auto
qed

lemma step_accounted:
  "accounted (processWorker_step cfg remote out isRetry i st) = accounted st"
proof (cases "i < length (workers st)")
  case False
  then show ?thesis by (simp add: processWorker_step_def)
next
  case lt: True
  show ?thesis
  proof (cases "workers st ! i")
    case (Running f)
    let ?st' = "processWorker_resume cfg remote out isRetry f st"
    from resume_effect[of cfg remote out isRetry f st]
    obtain r where e: "files ?st' = files st" "workers ?st' = workers st" "filePath r = f"
      "mset (records ?st') = add_mset r (mset (records st))"
      by blast
    from e(4) have "mset (map filePath (records ?st')) = add_mset f (mset (map filePath (records st)))"
      using e(3) by (metis image_mset_add_mset mset_map)
    moreover from flying_update[OF lt, of Waiting] Running
    have "mset (concat (map in_flight ((workers st)[i := Waiting]))) + {#f#} =
          mset (concat (map in_flight (workers st)))" by simp
    ultimately show ?thesis using lt Running e(1,2)
      by (simp add: processWorker_step_def accounted_def Let_def records_def)
  next
    case Waiting
    obtain w st' where h: "processWorker_head cfg st = (w, st')"
      by (cases "processWorker_head cfg st")
    note he = head_effect[OF h]
    from flying_update[OF lt, of w] Waiting
    have fl: "mset (concat (map in_flight ((workers st)[i := w]))) =
          mset (concat (map in_flight (workers st))) + mset (in_flight w)" by simp
    from he show ?thesis
    proof (elim conjE disjE exE)
      assume "files st = []" "files st' = []" "w = Exited" "workers st' = workers st"
        "records st' = records st"
      with h lt Waiting fl show ?thesis
        by (simp add: processWorker_step_def accounted_def records_def)
    next
      fix f assume "files st = f # files st'" "w = Running f" "workers st' = workers st"
        "records st' = records st"
      with h lt Waiting fl show ?thesis
        by (simp add: processWorker_step_def accounted_def records_def)
    qed
  next
    case Exited
    with lt show ?thesis by (simp add: processWorker_step_def)
  next
    case (Rejected e)
    with lt show ?thesis by (simp add: processWorker_step_def)
  qed
qed


lemma start_worker_accounted: "accounted (start_worker cfg st) = accounted st"
proof -
  obtain w st' where h: "processWorker_head cfg st = (w, st')"
    by (cases "processWorker_head cfg st")
  from head_effect[OF h] h show ?thesis
    by (auto simp: start_worker_def accounted_def records_def)
qed

lemma spawn_invariant:
  "(\<And>s. P s \<Longrightarrow> P (start s)) \<Longrightarrow> P st \<Longrightarrow> P (spawn_workers k start st)"
  by (induction k arbitrary: st) auto

lemma run_pool_invariant:
  "(\<And>i s. P s \<Longrightarrow> P (step i s)) \<Longrightarrow> P st \<Longrightarrow> P (run_pool step sched st)"
  by (induction sched arbitrary: st) auto

lemma run_pass_accounted:
  "accounted (run_pass cfg remote out isRetry sched allFiles w) = mset allFiles"
proof -
  let ?P = "\<lambda>s. accounted s = mset allFiles"
  have "?P (new_pool cfg allFiles w)"
    by (simp add: new_pool_def accounted_def records_def)
  then have "?P (spawn_workers (worker_count (MAX_CONCURRENT cfg) allFiles) (start_worker cfg)
                   (new_pool cfg allFiles w))"
    by (rule spawn_invariant[rotated]) (simp add: start_worker_accounted)
  then show ?thesis
    unfolding run_pass_def
    by (rule run_pool_invariant[rotated]) (simp add: step_accounted)
qed


lemma first_rejected_None: "first_rejected ws = None \<longleftrightarrow> (\<forall>e. Rejected e \<notin> set ws)"
  by (induction ws rule: first_rejected.induct) auto

lemma step_sound:
  assumes "sound_workers st"
  shows "sound_workers (processWorker_step cfg remote out isRetry i st)"
proof (cases "i < length (workers st)")
  case False
  with assms show ?thesis by (simp add: processWorker_step_def)
next
  case lt: True
  show ?thesis
  proof (cases "workers st ! i")
    case (Running f)
    from resume_effect[of cfg remote out isRetry f st] assms lt Running show ?thesis
      by (auto simp: processWorker_step_def sound_workers_def first_rejected_None Let_def
               dest!: set_update_subset_insert[THEN subsetD])
  next
    case Waiting
    obtain w st' where h: "processWorker_head cfg st = (w, st')"
      by (cases "processWorker_head cfg st")
    from head_effect[OF h] h assms lt Waiting show ?thesis
      by (auto simp: processWorker_step_def sound_workers_def first_rejected_None
               dest!: set_update_subset_insert[THEN subsetD])
  next
    case Exited
    with lt assms show ?thesis by (simp add: processWorker_step_def)
  next
    case (Rejected e)
    with lt assms show ?thesis by (simp add: processWorker_step_def)
  qed
qed

lemma start_worker_sound:
  assumes "sound_workers st"
  shows "sound_workers (start_worker cfg st)"
proof -
  obtain w st' where h: "processWorker_head cfg st = (w, st')"
    by (cases "processWorker_head cfg st")
  from head_effect[OF h] h assms show ?thesis
    by (auto simp: start_worker_def sound_workers_def first_rejected_None)
qed

lemma run_pass_sound: "sound_workers (run_pass cfg remote out isRetry sched allFiles w)"
proof -
  have "sound_workers (new_pool cfg allFiles w)"
    by (simp add: new_pool_def sound_workers_def)
  then have "sound_workers (spawn_workers (worker_count (MAX_CONCURRENT cfg) allFiles)
                   (start_worker cfg) (new_pool cfg allFiles w))"
    by (rule spawn_invariant[rotated]) (simp add: start_worker_sound)
  then show ?thesis
    unfolding run_pass_def
    by (rule run_pool_invariant[rotated]) (simp add: step_sound)
qed

text \<open>The number of workers.\<close>

lemma step_workers_length:
  "length (workers (processWorker_step cfg remote out isRetry i st)) = length (workers st)"
proof (cases "i < length (workers st)")
  case False
  then show ?thesis by (simp add: processWorker_step_def)
next
  case lt: True
  show ?thesis
  proof (cases "workers st ! i")
    case (Running f)
    from resume_effect[of cfg remote out isRetry f st] lt Running show ?thesis
      by (simp add: processWorker_step_def Let_def)
  next
    case Waiting
    obtain w st' where h: "processWorker_head cfg st = (w, st')"
      by (cases "processWorker_head cfg st")
    from head_effect[OF h] h lt Waiting show ?thesis
      by (simp add: processWorker_step_def)
  qed (simp_all add: processWorker_step_def lt)
qed

lemma run_pool_workers_length:
  "(\<And>i s. length (workers (step i s)) = length (workers s)) \<Longrightarrow>
   length (workers (run_pool step sched st)) = length (workers st)"
  by (induction sched arbitrary: st) auto

lemma spawn_workers_length:
  "(\<And>s. length (workers (start s)) = Suc (length (workers s))) \<Longrightarrow>
   length (workers (spawn_workers k start st)) = length (workers st) + k"
  by (induction k arbitrary: st) auto

lemma start_worker_length: "length (workers (start_worker cfg st)) = Suc (length (workers st))"
proof -
  obtain w st' where h: "processWorker_head cfg st = (w, st')"
    by (cases "processWorker_head cfg st")
  from head_effect[OF h] h show ?thesis by (simp add: start_worker_def)
qed

lemma run_pass_workers_length:
  "length (workers (run_pass cfg remote out isRetry sched allFiles w)) =
   worker_count (MAX_CONCURRENT cfg) allFiles"
  unfolding run_pass_def
  by (simp add: run_pool_workers_length step_workers_length spawn_workers_length
        start_worker_length new_pool_def)


lemma promise_all_AllExited:
  "promise_all ws = AllExited \<longleftrightarrow> (\<forall>w \<in> set ws. w = Exited)"
proof
  assume "promise_all ws = AllExited"
  then show "\<forall>w \<in> set ws. w = Exited"
    by (auto simp: promise_all_def list_all_iff split: option.splits if_splits)
next
  assume a: "\<forall>w \<in> set ws. w = Exited"
  then have "first_rejected ws = None" by (auto simp: first_rejected_None)
  with a show "promise_all ws = AllExited" by (simp add: promise_all_def list_all_iff)
qed

lemma promise_all_pending_active:
  assumes "promise_all ws = StillPending"
  shows "\<exists>i < length ws. ws ! i = Waiting \<or> (\<exists>f. ws ! i = Running f)"
proof -
  from assms have none: "first_rejected ws = None" and "\<not> list_all (\<lambda>w. w = Exited) ws"
    by (auto simp: promise_all_def split: option.splits if_splits)
  then obtain w where w: "w \<in> set ws" "w \<noteq> Exited" by (auto simp: list_all_iff)
  from none w(1) have "\<And>e. w \<noteq> Rejected e" by (auto simp: first_rejected_None)
  with w(2) have "w = Waiting \<or> (\<exists>f. w = Running f)" by (cases w) auto
  with w(1) show ?thesis by (metis in_set_conv_nth)
qed

lemma step_potential:
  assumes "i < length (workers st)"
    and "workers st ! i = Waiting \<or> (\<exists>f. workers st ! i = Running f)"
  shows "potential (processWorker_step cfg remote out isRetry i st) < potential st"
proof -
  from assms(2) show ?thesis
  proof (elim disjE exE)
    assume wt: "workers st ! i = Waiting"
    obtain w st' where h: "processWorker_head cfg st = (w, st')"
      by (cases "processWorker_head cfg st")
    from weight_update[OF assms(1), of w] wt
    have wu: "sum_list (map weight ((workers st)[i := w])) + 1 =
              sum_list (map weight (workers st)) + weight w" by simp
    from head_effect[OF h] show ?thesis
    proof (elim conjE disjE exE)
      assume "files st = []" "files st' = []" "w = Exited" "workers st' = workers st"
      with h wt assms(1) wu show ?thesis
        by (simp add: processWorker_step_def potential_def)
    next
      fix f assume "files st = f # files st'" "w = Running f" "workers st' = workers st"
      with h wt assms(1) wu show ?thesis
        by (simp add: processWorker_step_def potential_def)
    qed
  next
    fix f assume rn: "workers st ! i = Running f"
    from weight_update[OF assms(1), of Waiting] rn
    have "sum_list (map weight ((workers st)[i := Waiting])) + 2 =
          sum_list (map weight (workers st)) + 1" by simp
    with resume_effect[of cfg remote out isRetry f st] rn assms(1) show ?thesis
      by (simp add: processWorker_step_def potential_def Let_def)
  qed
qed

lemma run_pool_settles:
  "\<exists>sched. promise_all (workers (run_pool (processWorker_step cfg remote out isRetry) sched st))
     \<noteq> StillPending"
proof (induction "potential st" arbitrary: st rule: less_induct)
  case less
  show ?case
  proof (cases "promise_all (workers st) = StillPending")
    case False
    then have "promise_all (workers (run_pool (processWorker_step cfg remote out isRetry) [] st))
       \<noteq> StillPending" by simp
    then show ?thesis by blast
  next
    case True
    from promise_all_pending_active[OF True] obtain i where
      i: "i < length (workers st)" "workers st ! i = Waiting \<or> (\<exists>f. workers st ! i = Running f)"
      by blast
    from less[OF step_potential[OF i]] obtain sched where
      "promise_all (workers (run_pool (processWorker_step cfg remote out isRetry) sched
          (processWorker_step cfg remote out isRetry i st))) \<noteq> StillPending" by blast
    with True have "promise_all (workers (run_pool (processWorker_step cfg remote out isRetry)
          (i # sched) st)) \<noteq> StillPending" by simp
    then show ?thesis by blast
  qed
qed

lemma run_pass_never_rejected:
  "promise_all (workers (run_pass cfg remote out isRetry sched allFiles w)) \<noteq> OneRejected e"
  using run_pass_sound[of cfg remote out isRetry sched allFiles w]
  by (auto simp: sound_workers_def promise_all_def split: option.splits)

lemma run_pass_completes:
  "\<exists>sched. promise_all (workers (run_pass cfg remote out isRetry sched allFiles w)) = AllExited"
proof -
  from run_pool_settles obtain sched where
    s: "promise_all (workers (run_pass cfg remote out isRetry sched allFiles w)) \<noteq> StillPending"
    unfolding run_pass_def by blast
  with run_pass_never_rejected[of cfg remote out isRetry sched allFiles w] show ?thesis
    by (metis join.exhaust)
qed

lemma all_exited_nothing_in_flight:
  "\<forall>w \<in> set ws. w = Exited \<Longrightarrow> concat (map in_flight ws) = []"
  by (induction ws) auto

lemma joined_pass:
  assumes mc: "1 \<le> MAX_CONCURRENT cfg"
    and j: "promise_all (workers (run_pass cfg remote out isRetry sched allFiles w)) = AllExited"
  shows "files (run_pass cfg remote out isRetry sched allFiles w) = [] \<and>
         mset (map filePath (records (run_pass cfg remote out isRetry sched allFiles w))) = mset allFiles"
proof -
  let ?st = "run_pass cfg remote out isRetry sched allFiles w"
  from j have ex: "\<forall>w \<in> set (workers ?st). w = Exited" by (simp add: promise_all_AllExited)
  have acc: "accounted ?st = mset allFiles" by (rule run_pass_accounted)
  have len: "length (workers ?st) = worker_count (MAX_CONCURRENT cfg) allFiles"
    by (rule run_pass_workers_length)
  have empty: "files ?st = []"
  proof (cases "allFiles = []")
    case True
    with acc show ?thesis by (simp add: accounted_def)
  next
    case False
    then have "1 \<le> int (length allFiles)" by (cases allFiles) auto
    with mc have "0 < nat (min (int (length allFiles)) (MAX_CONCURRENT cfg))" by linarith
    then have "0 < worker_count (MAX_CONCURRENT cfg) allFiles" by (simp only: worker_count_def)
    with len have "0 < length (workers ?st)" by simp
    then have "workers ?st \<noteq> []" by blast
    then obtain x where "x \<in> set (workers ?st)" by (cases "workers ?st") auto
    with ex have "Exited \<in> set (workers ?st)" by auto
    with run_pass_sound[of cfg remote out isRetry sched allFiles w] show ?thesis
      by (simp add: sound_workers_def)
  qed
  from acc empty all_exited_nothing_in_flight[OF ex] show ?thesis
    by (simp add: accounted_def)
qed


subsection \<open>The extension's pool\<close>


lemma ext_resume_effect:
  "processWorker_ext_resume config remote src out cb f st = (w, st') \<Longrightarrow>
   files st' = files st \<and> workers st' = workers st \<and>
   length (records st') = Suc (length (records st)) \<and>
   (if cb then w = Rejected (JsError None False ''result is not defined'') else w = Waiting)"
  by (auto simp: processWorker_ext_resume_def records_def Let_def
           split: prod.splits option.splits if_splits)

lemma ext_head_effect:
  "processWorker_ext_head st = (w, st') \<Longrightarrow>
   workers st' = workers st \<and> records st' = records st \<and>
   ((files st = [] \<and> files st' = [] \<and> w = Exited) \<or>
    (\<exists>f. files st = f # files st' \<and> w = Running f))"
  by (auto simp: processWorker_ext_head_def records_def split: list.splits)

lemma ext_step_workers_length:
  "length (workers (processWorker_ext_step config remote src out cb i st)) = length (workers st)"
proof (cases "i < length (workers st)")
  case False
  then show ?thesis by (simp add: processWorker_ext_step_def)
next
  case lt: True
  show ?thesis
  proof (cases "workers st ! i")
    case (Running f)
    obtain w st' where h: "processWorker_ext_resume config remote src out cb f st = (w, st')"
      by (cases "processWorker_ext_resume config remote src out cb f st")
    from ext_resume_effect[OF h] h lt Running show ?thesis
      by (simp add: processWorker_ext_step_def)
  next
    case Waiting
    obtain w st' where h: "processWorker_ext_head st = (w, st')"
      by (cases "processWorker_ext_head st")
    from ext_head_effect[OF h] h lt Waiting show ?thesis
      by (simp add: processWorker_ext_step_def)
  qed (simp_all add: processWorker_ext_step_def lt)
qed

lemma start_worker_ext_length:
  "length (workers (start_worker_ext st)) = Suc (length (workers st))"
proof -
  obtain w st' where h: "processWorker_ext_head st = (w, st')"
    by (cases "processWorker_ext_head st")
  from ext_head_effect[OF h] h show ?thesis by (simp add: start_worker_ext_def)
qed

lemma run_pass_ext_workers_length:
  "length (workers (run_pass_ext config remote src out sched allFiles w)) =
   worker_count (maxConcurrent config) allFiles"
  unfolding run_pass_ext_def
  by (simp add: run_pool_workers_length ext_step_workers_length spawn_workers_length
        start_worker_ext_length)

lemma ext_step_stuck:
  assumes "stuck_workers st"
  shows "stuck_workers (processWorker_ext_step config remote src out True i st)"
proof (cases "i < length (workers st)")
  case False
  with assms show ?thesis by (simp add: processWorker_ext_step_def)
next
  case lt: True
  from assms lt have "(\<exists>f. workers st ! i = Running f) \<or> (\<exists>e. workers st ! i = Rejected e)"
    by (auto simp: stuck_workers_def)
  then show ?thesis
  proof (elim disjE exE)
    fix f assume rn: "workers st ! i = Running f"
    obtain w st' where h: "processWorker_ext_resume config remote src out True f st = (w, st')"
      by (cases "processWorker_ext_resume config remote src out True f st")
    from ext_resume_effect[OF h] h lt rn assms show ?thesis
      by (auto simp: processWorker_ext_step_def stuck_workers_def
               dest!: set_update_subset_insert[THEN subsetD])
  next
    fix e assume "workers st ! i = Rejected e"
    with lt assms show ?thesis by (simp add: processWorker_ext_step_def)
  qed
qed

lemma spawn_ext_stuck:
  "k \<le> length (files st) \<Longrightarrow> stuck_workers st \<Longrightarrow>
   stuck_workers (spawn_workers k start_worker_ext st)"
proof (induction k arbitrary: st)
  case 0
  then show ?case by simp
next
  case (Suc k)
  from Suc.prems(1) obtain f rest where fr: "files st = f # rest" by (cases "files st") auto
  then have st': "start_worker_ext st = st\<lparr>files := rest, workers := workers st @ [Running f]\<rparr>"
    by (simp add: start_worker_ext_def processWorker_ext_head_def)
  from Suc.prems fr have "k \<le> length (files (start_worker_ext st))"
    and "stuck_workers (start_worker_ext st)"
    by (auto simp: st' stuck_workers_def)
  from Suc.IH[OF this] show ?case by simp
qed

lemma ext_pass_never_joins:
  assumes "allFiles \<noteq> []" and "1 \<le> maxConcurrent config"
  shows "promise_all (workers (run_pass_ext config remote src out sched allFiles w)) \<noteq> AllExited"
proof -
  let ?init = "\<lparr> fs = fs w, console = console w, files = allFiles,
            results_success = [], results_failed = [], bar = None, workers = [] \<rparr>"
  let ?st = "run_pass_ext config remote src out sched allFiles w"
  have "worker_count (maxConcurrent config) allFiles \<le> length (files ?init)"
    by (simp add: worker_count_def)
  moreover have "stuck_workers ?init" by (simp add: stuck_workers_def)
  ultimately have "stuck_workers (spawn_workers (worker_count (maxConcurrent config) allFiles)
      start_worker_ext ?init)" by (rule spawn_ext_stuck)
  then have stuck: "stuck_workers ?st"
    unfolding run_pass_ext_def
    by (rule run_pool_invariant[rotated]) (simp add: ext_step_stuck)
  from assms(1) have "1 \<le> int (length allFiles)" by (cases allFiles) auto
  with assms(2) have "0 < nat (min (int (length allFiles)) (maxConcurrent config))" by linarith
  then have "0 < worker_count (maxConcurrent config) allFiles" by (simp only: worker_count_def)
  with run_pass_ext_workers_length[of config remote src out sched allFiles w]
  have "0 < length (workers ?st)" by simp
  then obtain wk where wk: "wk \<in> set (workers ?st)" by (cases "workers ?st") auto
  with stuck have "wk \<noteq> Exited" by (auto simp: stuck_workers_def)
  with wk show ?thesis by (auto simp: promise_all_AllExited)
qed

text \<open>
  In \<^verbatim>\<open>index.js\<close> every item of a pass is taken from the queue once and recorded once:
  when \<^verbatim>\<open>Promise.all\<close> is fulfilled the queue is empty and the recorded files are, as
  a multiset, the files the pass began with. This holds for every schedule, and some
  schedule fulfils the promise (\<open>run_pass_completes\<close>).
\<close>

lemma processWorker_exactly_once:
  assumes "1 \<le> MAX_CONCURRENT cfg"
    and "promise_all (workers (run_pass cfg remote out isRetry sched allFiles w)) = AllExited"
  shows "files (run_pass cfg remote out isRetry sched allFiles w) = [] \<and>
         mset (map filePath (results_success (run_pass cfg remote out isRetry sched allFiles w) @
                             results_failed (run_pass cfg remote out isRetry sched allFiles w)))
           = mset allFiles \<and>
         length (results_success (run_pass cfg remote out isRetry sched allFiles w)) +
         length (results_failed (run_pass cfg remote out isRetry sched allFiles w))
           = length allFiles"
proof -
  let ?st = "run_pass cfg remote out isRetry sched allFiles w"
  from joined_pass[OF assms] have e: "files ?st = []"
    and m: "mset (map filePath (records ?st)) = mset allFiles" by simp_all
  from m have "size (mset (map filePath (records ?st))) = size (mset allFiles)" by simp
  then have "length (records ?st) = length allFiles" by simp
  with e m show ?thesis by (simp add: records_def)
qed

text \<open>
  Claim C1. Every item of a pass is dequeued by exactly one worker and yields exactly
  one record, so that the two result arrays together are as long as the initial list.
  The extension's \<^verbatim>\<open>processWorker\<close> does not do this: with one worker and the two
  images \<^verbatim>\<open>a.png\<close> and \<^verbatim>\<open>b.png\<close>, the worker is rejected (\<^verbatim>\<open>result is not defined\<close>) after
  its first item, \<^verbatim>\<open>b.png\<close> stays in the queue, one record exists for two items, and
  \<^verbatim>\<open>compressFolder\<close> throws instead of returning its report.
\<close>

theorem processWorker_ext_drops_items:
  "files (run_pass_ext (getConfig_defaults\<lparr>maxConcurrent := 1\<rparr>) (\<lambda>p n. Compressed ''zz'')
            [''app'', ''static''] [''app'', ''static_compressed''] [0, 0, 0, 0]
            [[''app'', ''static'', ''a.png''], [''app'', ''static'', ''b.png'']]
            \<lparr> fs = Dir [(''app'', Dir [(''static'',
                    Dir [(''a.png'', File ''aaaa''), (''b.png'', File ''bbbb'')])])],
              console = [] \<rparr>)
     = [[''app'', ''static'', ''b.png'']] \<and>
   workers (run_pass_ext (getConfig_defaults\<lparr>maxConcurrent := 1\<rparr>) (\<lambda>p n. Compressed ''zz'')
            [''app'', ''static''] [''app'', ''static_compressed''] [0, 0, 0, 0]
            [[''app'', ''static'', ''a.png''], [''app'', ''static'', ''b.png'']]
            \<lparr> fs = Dir [(''app'', Dir [(''static'',
                    Dir [(''a.png'', File ''aaaa''), (''b.png'', File ''bbbb'')])])],
              console = [] \<rparr>)
     = [Rejected (JsError None False ''result is not defined'')] \<and>
   records (run_pass_ext (getConfig_defaults\<lparr>maxConcurrent := 1\<rparr>) (\<lambda>p n. Compressed ''zz'')
            [''app'', ''static''] [''app'', ''static_compressed''] [0, 0, 0, 0]
            [[''app'', ''static'', ''a.png''], [''app'', ''static'', ''b.png'']]
            \<lparr> fs = Dir [(''app'', Dir [(''static'',
                    Dir [(''a.png'', File ''aaaa''), (''b.png'', File ''bbbb'')])])],
              console = [] \<rparr>)
     = [Success [''app'', ''static'', ''a.png''] [''app'', ''static_compressed'', ''a.png'']
          ''a.png'' 4 2] \<and>
   compressFolder_ext (getConfig_defaults\<lparr>maxConcurrent := 1\<rparr>) (\<lambda>p n. Compressed ''zz'')
       [0, 0, 0, 0] [''app'', ''static'']
       \<lparr> fs = Dir [(''app'', Dir [(''static'',
               Dir [(''a.png'', File ''aaaa''), (''b.png'', File ''bbbb'')])])],
         console = [] \<rparr>
     = Threw (JsError None False ''result is not defined'')
         \<lparr> fs = Dir [(''app'', Dir [(''static'',
                   Dir [(''a.png'', File ''aaaa''), (''b.png'', File ''bbbb'')]),
                 (''static_compressed'', Dir [(''a.png'', File ''zz'')])])],
           console = [] \<rparr>"
  by code_simp

lemma pass_returns_after_join:
  "compress_found cfg remote sched allFiles w = Returned u w' \<Longrightarrow>
     \<exists>t. ensure_dir (fs w) (OUTPUT_ROOT cfg) = Inr t \<and>
         list_all (\<lambda>wk. wk = Exited)
           (workers (run_pass cfg remote (OUTPUT_ROOT cfg) False sched allFiles (w\<lparr>fs := t\<rparr>)))"
  by (auto simp: compress_found_def Let_def promise_all_AllExited list_all_iff
           split: sum.splits join.splits)

text \<open>
  The pool of \<^verbatim>\<open>index.js\<close>. With \<^verbatim>\<open>MAX_CONCURRENT\<close> at least 1, a pass over \<open>allFiles\<close> has
  exactly \<open>min (length allFiles) MAX_CONCURRENT\<close> workers, all on the one queue and the one
  pair of result arrays of the pool. \<^verbatim>\<open>await Promise.all(workers)\<close> is never rejected, and it
  is fulfilled exactly when every worker has left its loop, which some schedule brings
  about; so the pass goes on only after every worker has exited, and steps 2 to 6 of
  \<^verbatim>\<open>compressFolder\<close> return only then. The extension's pool has the same number of
  workers.
\<close>

lemma pool_spawns_min_workers_and_joins:
  assumes "1 \<le> MAX_CONCURRENT cfg"
  shows "length (workers (run_pass cfg remote out isRetry sched allFiles w))
           = min (length allFiles) (nat (MAX_CONCURRENT cfg)) \<and>
         (promise_all (workers (run_pass cfg remote out isRetry sched allFiles w)) = AllExited
            \<longleftrightarrow> list_all (\<lambda>wk. wk = Exited)
                  (workers (run_pass cfg remote out isRetry sched allFiles w))) \<and>
         promise_all (workers (run_pass cfg remote out isRetry sched allFiles w))
           \<noteq> OneRejected e \<and>
         (\<exists>sched'. promise_all (workers (run_pass cfg remote out isRetry sched' allFiles w))
                     = AllExited) \<and>
         length (workers (run_pass_ext config remote src out sched allFiles w))
           = min (length allFiles) (nat (maxConcurrent config)) \<and>
         (compress_found cfg remote sched allFiles w = Returned u w' \<longrightarrow>
            (\<exists>t. ensure_dir (fs w) (OUTPUT_ROOT cfg) = Inr t \<and>
                 list_all (\<lambda>wk. wk = Exited)
                   (workers (run_pass cfg remote (OUTPUT_ROOT cfg) False sched allFiles
                               (w\<lparr>fs := t\<rparr>)))))"
proof -
  have n: "worker_count mc allFiles = min (length allFiles) (nat mc)" if "1 \<le> mc" for mc
    using that by (simp add: worker_count_def min_def)
  have "0 \<le> maxConcurrent config \<or> maxConcurrent config < 0" by linarith
  then have n': "worker_count (maxConcurrent config) allFiles
      = min (length allFiles) (nat (maxConcurrent config))"
    by (auto simp: worker_count_def min_def)
  show ?thesis
    using run_pass_workers_length[of cfg remote out isRetry sched allFiles w] n[OF assms]
      promise_all_AllExited[of "workers (run_pass cfg remote out isRetry sched allFiles w)"]
      run_pass_never_rejected[of cfg remote out isRetry sched allFiles w e]
      run_pass_completes[of cfg remote out isRetry allFiles w]
      run_pass_ext_workers_length[of config remote src out sched allFiles w] n'
      pass_returns_after_join[of cfg remote sched allFiles w u w']
    by (simp add: list_all_iff)
qed

text \<open>
  The written configuration on a machine with four processors has
  \<^verbatim>\<open>MAX_CONCURRENT = 3\<close>; over two files the pool has two workers. While the first of them
  still waits for its timer the pass is suspended at its \<^verbatim>\<open>await\<close>; one more event and
  both have exited, and the promise is fulfilled.
\<close>

lemma pool_joins_example:
  "1 \<le> MAX_CONCURRENT (CONFIG [''app''] 4) \<and>
   MAX_CONCURRENT (CONFIG [''app''] 4) = 3 \<and>
   length (workers (run_pass (CONFIG [''app''] 4) (\<lambda>p n. Compressed ''zz'')
             [''app'', ''compressed_results''] False [0, 1, 1]
             [[''app'', ''static'', ''a.png''], [''app'', ''static'', ''b.png'']]
             \<lparr> fs = Dir [(''app'', Dir [(''static'',
                      Dir [(''a.png'', File ''aaaa''), (''b.png'', File ''bbbb'')])])],
               console = [] \<rparr>)) = 2 \<and>
   workers (run_pass (CONFIG [''app''] 4) (\<lambda>p n. Compressed ''zz'')
             [''app'', ''compressed_results''] False [0, 1, 1]
             [[''app'', ''static'', ''a.png''], [''app'', ''static'', ''b.png'']]
             \<lparr> fs = Dir [(''app'', Dir [(''static'',
                      Dir [(''a.png'', File ''aaaa''), (''b.png'', File ''bbbb'')])])],
               console = [] \<rparr>)
     = [Waiting, Exited] \<and>
   compress_found (CONFIG [''app''] 4) (\<lambda>p n. Compressed ''zz'') [0, 1, 1]
       [[''app'', ''static'', ''a.png''], [''app'', ''static'', ''b.png'']]
       \<lparr> fs = Dir [(''app'', Dir [(''static'',
                Dir [(''a.png'', File ''aaaa''), (''b.png'', File ''bbbb'')])])],
         console = [] \<rparr>
     = Suspended \<and>
   workers (run_pass (CONFIG [''app''] 4) (\<lambda>p n. Compressed ''zz'')
             [''app'', ''compressed_results''] False [0, 1, 1, 0]
             [[''app'', ''static'', ''a.png''], [''app'', ''static'', ''b.png'']]
             \<lparr> fs = Dir [(''app'', Dir [(''static'',
                      Dir [(''a.png'', File ''aaaa''), (''b.png'', File ''bbbb'')])])],
               console = [] \<rparr>)
     = [Exited, Exited] \<and>
   promise_all (workers (run_pass (CONFIG [''app''] 4) (\<lambda>p n. Compressed ''zz'')
             [''app'', ''compressed_results''] False [0, 1, 1, 0]
             [[''app'', ''static'', ''a.png''], [''app'', ''static'', ''b.png'']]
             \<lparr> fs = Dir [(''app'', Dir [(''static'',
                      Dir [(''a.png'', File ''aaaa''), (''b.png'', File ''bbbb'')])])],
               console = [] \<rparr>))
     = AllExited"
proof -
  let ?cfg = "CONFIG [''app''] 4"
  let ?r = "\<lambda>p n. Compressed ''zz''"
  let ?fl = "[[''app'', ''static'', ''a.png''], [''app'', ''static'', ''b.png'']]"
  let ?w = "\<lparr> fs = Dir [(''app'', Dir [(''static'',
                      Dir [(''a.png'', File ''aaaa''), (''b.png'', File ''bbbb'')])])],
               console = [] \<rparr>"
  have h: "1 \<le> MAX_CONCURRENT ?cfg" and m: "MAX_CONCURRENT ?cfg = 3"
    by (simp_all add: CONFIG_def)
  have w1: "workers (run_pass ?cfg ?r [''app'', ''compressed_results''] False [0, 1, 1] ?fl ?w)
     = [Waiting, Exited]" by code_simp
  have c1: "compress_found ?cfg ?r [0, 1, 1] ?fl ?w = Suspended" by code_simp
  have w2: "workers (run_pass ?cfg ?r [''app'', ''compressed_results''] False [0, 1, 1, 0] ?fl ?w)
     = [Exited, Exited]" by code_simp
  from pool_spawns_min_workers_and_joins[OF h, of ?r "[''app'', ''compressed_results'']" False
      "[0, 1, 1]" ?fl ?w]
  have n: "length (workers (run_pass ?cfg ?r [''app'', ''compressed_results''] False [0, 1, 1]
             ?fl ?w)) = 2"
    by (simp add: m)
  from pool_spawns_min_workers_and_joins[OF h, of ?r "[''app'', ''compressed_results'']" False
      "[0, 1, 1, 0]" ?fl ?w] w2
  have j: "promise_all (workers (run_pass ?cfg ?r [''app'', ''compressed_results''] False
             [0, 1, 1, 0] ?fl ?w)) = AllExited"
    by simp
  from h m n w1 c1 w2 j show ?thesis by simp
qed

text \<open>
  Claim C7. Every pass has \<open>min (itemCount, maxConcurrent)\<close> workers on one queue and one
  pair of result arrays, and completes only after every one of them has exited. The
  number is right in both programs, and \<^verbatim>\<open>index.js\<close> waits for all its workers
  (\<open>pool_spawns_min_workers_and_joins\<close>). The pass of the extension does not: with the
  default \<^verbatim>\<open>maxConcurrent = 3\<close> and the two images \<^verbatim>\<open>a.png\<close> and \<^verbatim>\<open>b.png\<close> it has two workers;
  the first is rejected after its file (\<^verbatim>\<open>result is not defined\<close>), which rejects
  \<^verbatim>\<open>Promise.all\<close> at once, and \<^verbatim>\<open>compressFolder\<close> throws while the second worker is still
  waiting for \<^verbatim>\<open>b.png\<close>: whatever the timers and the network do next, the pass has ended
  with a worker running.
\<close>

theorem ext_pass_ends_while_worker_runs:
  "length (workers (run_pass_ext getConfig_defaults (\<lambda>p n. Compressed ''zz'')
            [''app'', ''static''] [''app'', ''static_compressed''] [0, 1, 1]
            [[''app'', ''static'', ''a.png''], [''app'', ''static'', ''b.png'']]
            \<lparr> fs = Dir [(''app'', Dir [(''static'',
                    Dir [(''a.png'', File ''aaaa''), (''b.png'', File ''bbbb'')])])],
              console = [] \<rparr>))
     = min 2 (nat (maxConcurrent getConfig_defaults)) \<and>
   workers (run_pass_ext getConfig_defaults (\<lambda>p n. Compressed ''zz'')
            [''app'', ''static''] [''app'', ''static_compressed''] [0, 1, 1]
            [[''app'', ''static'', ''a.png''], [''app'', ''static'', ''b.png'']]
            \<lparr> fs = Dir [(''app'', Dir [(''static'',
                    Dir [(''a.png'', File ''aaaa''), (''b.png'', File ''bbbb'')])])],
              console = [] \<rparr>)
     = [Rejected (JsError None False ''result is not defined''),
        Running [''app'', ''static'', ''b.png'']] \<and>
   promise_all (workers (run_pass_ext getConfig_defaults (\<lambda>p n. Compressed ''zz'')
            [''app'', ''static''] [''app'', ''static_compressed''] [0, 1, 1]
            [[''app'', ''static'', ''a.png''], [''app'', ''static'', ''b.png'']]
            \<lparr> fs = Dir [(''app'', Dir [(''static'',
                    Dir [(''a.png'', File ''aaaa''), (''b.png'', File ''bbbb'')])])],
              console = [] \<rparr>))
     = OneRejected (JsError None False ''result is not defined'') \<and>
   compressFolder_ext getConfig_defaults (\<lambda>p n. Compressed ''zz'') [0, 1, 1] [''app'', ''static'']
       \<lparr> fs = Dir [(''app'', Dir [(''static'',
               Dir [(''a.png'', File ''aaaa''), (''b.png'', File ''bbbb'')])])],
         console = [] \<rparr>
     = Threw (JsError None False ''result is not defined'')
         \<lparr> fs = Dir [(''app'', Dir [(''static'',
                   Dir [(''a.png'', File ''aaaa''), (''b.png'', File ''bbbb'')]),
                 (''static_compressed'', Dir [(''a.png'', File ''zz'')])])],
           console = [] \<rparr>"
  by code_simp

subsection \<open>Discovery\<close>

declare getAllImageFiles.simps [simp del] getAllImageFiles_ext.simps [simp del]

lemma getAllImageFiles_skipped: "skipped cfg dir \<Longrightarrow> getAllImageFiles cfg dir n = Inr []"
  by (auto simp: getAllImageFiles.simps[of cfg dir n] skipped_def)

lemma getAllImageFiles_File:
  "\<not> skipped cfg dir \<Longrightarrow> getAllImageFiles cfg dir (File c) = Inl ENOTDIR"
  by (auto simp: getAllImageFiles.simps[of cfg dir "File c"] skipped_def)

lemma getAllImageFiles_Dir_eq:
  "\<not> skipped cfg dir \<Longrightarrow>
   getAllImageFiles cfg dir (Dir entries) = collect (map (scan_entry cfg dir) entries)"
proof -
  assume ns: "\<not> skipped cfg dir"
  have "(\<lambda>(fl, child).
            let fullPath = path_join dir fl in
            (case child of
               Dir _ \<Rightarrow> getAllImageFiles cfg fullPath child
             | File _ \<Rightarrow> if is_supported cfg fl then Inr [fullPath] else Inr [])) = scan_entry cfg dir"
    by (auto simp: scan_entry_def fun_eq_iff path_join_def split: node.splits)
  with ns[unfolded skipped_def] show ?thesis
    by (auto simp: getAllImageFiles.simps[of cfg dir "Dir entries"])
qed

lemma collect_Inr_member:
  "collect rs = Inr ps \<Longrightarrow> p \<in> set ps \<Longrightarrow> \<exists>qs. Inr qs \<in> set rs \<and> p \<in> set qs"
proof (induction rs arbitrary: ps)
  case Nil
  then show ?case by simp
next
  case (Cons r rs)
  show ?case
  proof (cases r)
    case (Inl e)
    with Cons.prems show ?thesis by simp
  next
    case (Inr qs)
    with Cons.prems(1) obtain ps' where ps': "collect rs = Inr ps'" "ps = qs @ ps'"
      by (auto split: sum.splits)
    from Cons.prems(2) ps'(2) have "p \<in> set qs \<or> p \<in> set ps'" by simp
    then show ?thesis
    proof
      assume "p \<in> set qs"
      with Inr show ?thesis by auto
    next
      assume "p \<in> set ps'"
      from Cons.IH[OF ps'(1) this] show ?thesis by auto
    qed
  qed
qed


lemma getAllImageFiles_sound:
  "getAllImageFiles cfg dir n = Inr ps \<Longrightarrow> p \<in> set ps \<Longrightarrow>
   \<exists>rest nm. p = dir @ rest @ [nm] \<and> is_supported cfg nm \<and>
     (\<forall>k \<le> length rest. \<not> skipped cfg (dir @ take k rest))"
proof (induction cfg dir n arbitrary: ps rule: getAllImageFiles.induct)
  case (1 cfg dir n)
  from "1.prems" have ns: "\<not> skipped cfg dir"
    by (auto simp: getAllImageFiles_skipped)
  with "1.prems" obtain entries where n: "n = Dir entries"
    by (cases n) (auto simp: getAllImageFiles_File)
  from "1.prems"(1) ns n have c: "collect (map (scan_entry cfg dir) entries) = Inr ps"
    by (simp add: getAllImageFiles_Dir_eq)
  from collect_Inr_member[OF c "1.prems"(2)] obtain qs where
    "Inr qs \<in> set (map (scan_entry cfg dir) entries)" and pq: "p \<in> set qs" by blast
  then obtain e0 where "e0 \<in> set entries" "scan_entry cfg dir e0 = Inr qs" by auto
  with pq obtain fl child where
    e: "(fl, child) \<in> set entries" "scan_entry cfg dir (fl, child) = Inr qs" "p \<in> set qs"
    by (cases e0) auto
  show ?case
  proof (cases child)
    case (File d)
    with e have "p = dir @ [] @ [fl]" "is_supported cfg fl"
      by (auto simp: scan_entry_def split: if_splits)
    with ns show ?thesis by auto
  next
    case (Dir es)
    with e have r: "getAllImageFiles cfg (path_join dir fl) child = Inr qs"
      by (simp add: scan_entry_def path_join_def)
    from ns have ns': "\<not> (SKIP_HIDDEN_DIRS cfg \<and> startsWith_dot (basename dir))"
      "dir \<noteq> SAVE_FAILED_TO cfg" by (auto simp: skipped_def)
    from "1.IH"[OF ns' n e(1) refl refl Dir r e(3)]
    obtain rest nm where ih: "p = path_join dir fl @ rest @ [nm]" "is_supported cfg nm"
      "\<forall>k \<le> length rest. \<not> skipped cfg (path_join dir fl @ take k rest)"
      by blast
    have "\<forall>k \<le> length (fl # rest). \<not> skipped cfg (dir @ take k (fl # rest))"
    proof (intro allI impI)
      fix k assume k: "k \<le> length (fl # rest)"
      show "\<not> skipped cfg (dir @ take k (fl # rest))"
      proof (cases k)
        case 0
        with ns show ?thesis by simp
      next
        case (Suc k')
        with k ih(3) show ?thesis by (simp add: path_join_def)
      qed
    qed
    with ih(1,2) have "p = dir @ (fl # rest) @ [nm] \<and> is_supported cfg nm \<and>
      (\<forall>k \<le> length (fl # rest). \<not> skipped cfg (dir @ take k (fl # rest)))"
      by (simp add: path_join_def)
    then show ?thesis by blast
  qed
qed





lemma getAllImageFiles_ext_skipped:
  "skipped_ext out dir \<Longrightarrow> getAllImageFiles_ext dir n out = []"
  by (auto simp: getAllImageFiles_ext.simps[of dir n out] skipped_ext_def)

lemma getAllImageFiles_ext_File: "getAllImageFiles_ext dir (File c) out = []"
  by (auto simp: getAllImageFiles_ext.simps[of dir "File c" out])

lemma getAllImageFiles_ext_Dir_eq:
  "\<not> skipped_ext out dir \<Longrightarrow>
   getAllImageFiles_ext dir (Dir entries) out = concat (map (scan_entry_ext dir out) entries)"
proof -
  assume ns: "\<not> skipped_ext out dir"
  have "(\<lambda>(fl, child).
            let fullPath = path_join dir fl in
            (case child of
               Dir _ \<Rightarrow> getAllImageFiles_ext fullPath child out
             | File _ \<Rightarrow>
                 if toLowerCase (extname fl) \<in> set [''.jpg'', ''.jpeg'', ''.png'', ''.webp'']
                 then [fullPath] else [])) = scan_entry_ext dir out"
    by (auto simp: scan_entry_ext_def fun_eq_iff path_join_def split: node.splits)
  with ns[unfolded skipped_ext_def] show ?thesis
    by (auto simp: getAllImageFiles_ext.simps[of dir "Dir entries" out])
qed

lemma getAllImageFiles_ext_sound:
  "p \<in> set (getAllImageFiles_ext dir n out) \<Longrightarrow>
   \<exists>rest nm. p = dir @ rest @ [nm] \<and>
     toLowerCase (extname nm) \<in> set [''.jpg'', ''.jpeg'', ''.png'', ''.webp''] \<and>
     (\<forall>k \<le> length rest. \<not> skipped_ext out (dir @ take k rest))"
proof (induction dir n out rule: getAllImageFiles_ext.induct)
  case (1 dir n out)
  from "1.prems" have ns: "\<not> skipped_ext out dir"
    by (auto simp: getAllImageFiles_ext_skipped)
  from "1.prems" obtain entries where n: "n = Dir entries"
    by (cases n) (auto simp: getAllImageFiles_ext_File)
  from "1.prems" ns n obtain e0 where "e0 \<in> set entries" "p \<in> set (scan_entry_ext dir out e0)"
    by (auto simp: getAllImageFiles_ext_Dir_eq)
  moreover obtain fl child where "e0 = (fl, child)" by (cases e0)
  ultimately have
    e: "(fl, child) \<in> set entries" "p \<in> set (scan_entry_ext dir out (fl, child))"
    by simp_all
  show ?case
  proof (cases child)
    case (File d)
    with e have "p = dir @ [] @ [fl]"
      "toLowerCase (extname fl) \<in> set [''.jpg'', ''.jpeg'', ''.png'', ''.webp'']"
      by (auto simp: scan_entry_ext_def split: if_splits)
    with ns show ?thesis by (metis le_zero_eq list.size(3) append.right_neutral take_eq_Nil2)
  next
    case (Dir es)
    with e have r: "p \<in> set (getAllImageFiles_ext (path_join dir fl) child out)"
      by (simp add: scan_entry_ext_def path_join_def)
    from ns have ns': "\<not> startsWith_dot (basename dir)" "out \<noteq> Some dir"
      by (auto simp: skipped_ext_def)
    from "1.IH"[OF ns' n e(1) refl refl Dir r]
    obtain rest nm where ih: "p = path_join dir fl @ rest @ [nm]"
      "toLowerCase (extname nm) \<in> set [''.jpg'', ''.jpeg'', ''.png'', ''.webp'']"
      "\<forall>k \<le> length rest. \<not> skipped_ext out (path_join dir fl @ take k rest)"
      by blast
    have "\<forall>k \<le> length (fl # rest). \<not> skipped_ext out (dir @ take k (fl # rest))"
    proof (intro allI impI)
      fix k assume k: "k \<le> length (fl # rest)"
      show "\<not> skipped_ext out (dir @ take k (fl # rest))"
      proof (cases k)
        case 0
        with ns show ?thesis by simp
      next
        case (Suc k')
        with k ih(3) show ?thesis by (simp add: path_join_def)
      qed
    qed
    with ih(1,2) have "p = dir @ (fl # rest) @ [nm] \<and>
      toLowerCase (extname nm) \<in> set [''.jpg'', ''.jpeg'', ''.png'', ''.webp''] \<and>
      (\<forall>k \<le> length (fl # rest). \<not> skipped_ext out (dir @ take k (fl # rest)))"
      by (simp add: path_join_def)
    then show ?thesis by blast
  qed
qed

lemma on_the_way_take:
  assumes "p = dir @ rest @ [nm]" and "on_the_way dir d p"
  shows "\<exists>k \<le> length rest. d = dir @ take k rest"
proof -
  from assms(2) obtain x where x: "d = dir @ x" by (auto simp: on_the_way_def prefix_def)
  with assms have "strict_prefix (dir @ x) (dir @ (rest @ [nm]))" by (simp add: on_the_way_def)
  then have "prefix x rest" by (auto simp: strict_prefix_def)
  then have "x = take (length x) rest" "length x \<le> length rest"
    by (auto simp: prefix_def)
  with x show ?thesis by metis
qed

lemma found_not_under:
  assumes p: "p = dir @ rest @ [nm]"
    and way: "\<forall>d. on_the_way dir d p \<longrightarrow> d \<noteq> h"
    and h: "\<not> strict_prefix h dir"
  shows "\<not> strict_prefix h p"
proof
  assume sp: "strict_prefix h p"
  from p have dp: "strict_prefix dir p" by (simp add: strict_prefix_def prefix_def)
  then have "prefix dir p" by (simp add: strict_prefix_def)
  moreover from sp have "prefix h p" by (simp add: strict_prefix_def)
  ultimately have "prefix dir h \<or> prefix h dir" by (metis prefix_same_cases)
  then show False
  proof
    assume "prefix dir h"
    with sp have "on_the_way dir h p" by (simp add: on_the_way_def)
    with way show False by blast
  next
    assume ph: "prefix h dir"
    from dp have "on_the_way dir dir p" by (simp add: on_the_way_def)
    with way have "dir \<noteq> h" by blast
    with ph h show False by (simp add: strict_prefix_def)
  qed
qed

text \<open>
  Claim C8 (amended). Every path \<^verbatim>\<open>getAllImageFiles\<close> returns lies below the scanned
  directory and ends in a name of a supported format; no directory on the way from the
  scanned directory to the file is hidden (when \<^verbatim>\<open>SKIP_HIDDEN_DIRS\<close> is on) or is the
  holding directory, so unless the scan starts inside the holding directory no returned
  file lies under it. The function has no check for the output directory: a returned
  file is outside it when the output root and the scanned directory lie beside each
  other, as the written paths do. The extension's function skips hidden directories and
  the output directory it is given.
\<close>

theorem discovery_excludes:
  "(getAllImageFiles cfg dir n = Inr ps \<and> p \<in> set ps \<longrightarrow>
      strict_prefix dir p \<and> is_supported cfg (basename p) \<and>
      (\<forall>d. on_the_way dir d p \<longrightarrow>
            \<not> (SKIP_HIDDEN_DIRS cfg \<and> startsWith_dot (basename d)) \<and> d \<noteq> SAVE_FAILED_TO cfg) \<and>
      (\<not> strict_prefix (SAVE_FAILED_TO cfg) dir \<longrightarrow> \<not> strict_prefix (SAVE_FAILED_TO cfg) p) \<and>
      (\<not> prefix (OUTPUT_ROOT cfg) dir \<and> \<not> prefix dir (OUTPUT_ROOT cfg) \<longrightarrow>
         \<not> strict_prefix (OUTPUT_ROOT cfg) p)) \<and>
   (q \<in> set (getAllImageFiles_ext dir n (Some out)) \<longrightarrow>
      strict_prefix dir q \<and>
      toLowerCase (extname (basename q)) \<in> set [''.jpg'', ''.jpeg'', ''.png'', ''.webp''] \<and>
      (\<forall>d. on_the_way dir d q \<longrightarrow> \<not> startsWith_dot (basename d) \<and> d \<noteq> out) \<and>
      (\<not> strict_prefix out dir \<longrightarrow> \<not> strict_prefix out q))"
proof (intro conjI impI; (elim conjE)?)
  assume a: "getAllImageFiles cfg dir n = Inr ps" "p \<in> set ps"
  from getAllImageFiles_sound[OF a] obtain rest nm where
    s: "p = dir @ rest @ [nm]" "is_supported cfg nm"
       "\<forall>k \<le> length rest. \<not> skipped cfg (dir @ take k rest)" by blast
  from s(1) show sp: "strict_prefix dir p" by (simp add: strict_prefix_def prefix_def)
  from s(1,2) show "is_supported cfg (basename p)" by (simp add: basename_def)
  show way: "\<forall>d. on_the_way dir d p \<longrightarrow>
            \<not> (SKIP_HIDDEN_DIRS cfg \<and> startsWith_dot (basename d)) \<and> d \<noteq> SAVE_FAILED_TO cfg"
  proof (intro allI impI)
    fix d assume "on_the_way dir d p"
    from on_the_way_take[OF s(1) this] s(3) have "\<not> skipped cfg d" by blast
    then show "\<not> (SKIP_HIDDEN_DIRS cfg \<and> startsWith_dot (basename d)) \<and> d \<noteq> SAVE_FAILED_TO cfg"
      by (simp add: skipped_def)
  qed
  {
    assume "\<not> strict_prefix (SAVE_FAILED_TO cfg) dir"
    with found_not_under[OF s(1), of "SAVE_FAILED_TO cfg"] way
    show "\<not> strict_prefix (SAVE_FAILED_TO cfg) p" by blast
  }
  {
    assume o: "\<not> prefix (OUTPUT_ROOT cfg) dir" "\<not> prefix dir (OUTPUT_ROOT cfg)"
    show "\<not> strict_prefix (OUTPUT_ROOT cfg) p"
    proof
      assume "strict_prefix (OUTPUT_ROOT cfg) p"
      with sp have "prefix (OUTPUT_ROOT cfg) p" "prefix dir p" by (simp_all add: strict_prefix_def)
      then have "prefix dir (OUTPUT_ROOT cfg) \<or> prefix (OUTPUT_ROOT cfg) dir"
        by (metis prefix_same_cases)
      with o show False by blast
    qed
  }
next
  assume a: "q \<in> set (getAllImageFiles_ext dir n (Some out))"
  from getAllImageFiles_ext_sound[OF a] obtain rest nm where
    s: "q = dir @ rest @ [nm]"
       "toLowerCase (extname nm) \<in> set [''.jpg'', ''.jpeg'', ''.png'', ''.webp'']"
       "\<forall>k \<le> length rest. \<not> skipped_ext (Some out) (dir @ take k rest)" by blast
  from s(1) show "strict_prefix dir q" by (simp add: strict_prefix_def prefix_def)
  from s(1,2) show "toLowerCase (extname (basename q)) \<in> set [''.jpg'', ''.jpeg'', ''.png'', ''.webp'']"
    by (simp add: basename_def)
  show way: "\<forall>d. on_the_way dir d q \<longrightarrow> \<not> startsWith_dot (basename d) \<and> d \<noteq> out"
  proof (intro allI impI)
    fix d assume "on_the_way dir d q"
    from on_the_way_take[OF s(1) this] s(3) have "\<not> skipped_ext (Some out) d" by blast
    then show "\<not> startsWith_dot (basename d) \<and> d \<noteq> out"
      by (auto simp: skipped_ext_def)
  qed
  {
    assume "\<not> strict_prefix out dir"
    with found_not_under[OF s(1), of out] way
    show "\<not> strict_prefix out q" by blast
  }
qed

text \<open>
  The theorem at work on the written configuration: of a tree with an upper-case
  extension, a text file, a hidden directory and a subdirectory, the two images outside
  the hidden directory are returned, and they lie outside the holding and the output
  directory.
\<close>

theorem discovery_excludes_witness:
  "getAllImageFiles (CONFIG [''app''] 4) [''app'', ''static'']
     (Dir [(''a.PNG'', File ''aaaa''), (''notes.txt'', File ''n''),
           (''.cache'', Dir [(''x.png'', File ''x'')]),
           (''sub'', Dir [(''b.jpeg'', File ''bb'')])])
     = Inr [[''app'', ''static'', ''a.PNG''], [''app'', ''static'', ''sub'', ''b.jpeg'']] \<and>
   [''app'', ''static'', ''sub'', ''b.jpeg'']
     \<in> set [[''app'', ''static'', ''a.PNG''], [''app'', ''static'', ''sub'', ''b.jpeg'']] \<and>
   is_supported (CONFIG [''app''] 4) (basename [''app'', ''static'', ''sub'', ''b.jpeg'']) \<and>
   \<not> strict_prefix (SAVE_FAILED_TO (CONFIG [''app''] 4)) [''app'', ''static'', ''sub'', ''b.jpeg''] \<and>
   \<not> strict_prefix (OUTPUT_ROOT (CONFIG [''app''] 4)) [''app'', ''static'', ''sub'', ''b.jpeg'']"
proof -
  let ?n = "Dir [(''a.PNG'', File ''aaaa''), (''notes.txt'', File ''n''),
           (''.cache'', Dir [(''x.png'', File ''x'')]),
           (''sub'', Dir [(''b.jpeg'', File ''bb'')])]"
  let ?ps = "[[''app'', ''static'', ''a.PNG''], [''app'', ''static'', ''sub'', ''b.jpeg'']]"
  have h1: "getAllImageFiles (CONFIG [''app''] 4) [''app'', ''static''] ?n = Inr ?ps"
    by code_simp
  have h2: "[''app'', ''static'', ''sub'', ''b.jpeg''] \<in> set ?ps" by simp
  have h3: "\<not> strict_prefix (SAVE_FAILED_TO (CONFIG [''app''] 4)) [''app'', ''static'']"
    by (simp add: CONFIG_def path_join_def strict_prefix_def)
  have h4: "\<not> prefix (OUTPUT_ROOT (CONFIG [''app''] 4)) [''app'', ''static''] \<and>
            \<not> prefix [''app'', ''static''] (OUTPUT_ROOT (CONFIG [''app''] 4))"
    by (simp add: CONFIG_def path_join_def)
  from discovery_excludes[of "CONFIG [''app''] 4" "[''app'', ''static'']" ?n ?ps
      "[''app'', ''static'', ''sub'', ''b.jpeg'']"] h1 h2 h3 h4
  show ?thesis by blast
qed

text \<open>
  The claim as worded fails for the output directory: with the output root placed inside
  the source root, the compressed \<^verbatim>\<open>out/a.png\<close> of an earlier run is returned.
\<close>

theorem discovery_returns_output_files:
  "getAllImageFiles ((CONFIG [''app''] 4)\<lparr>OUTPUT_ROOT := [''app'', ''static'', ''out'']\<rparr>)
     [''app'', ''static'']
     (Dir [(''a.png'', File ''aaaa''), (''out'', Dir [(''a.png'', File ''zz'')])])
     = Inr [[''app'', ''static'', ''a.png''], [''app'', ''static'', ''out'', ''a.png'']] \<and>
   strict_prefix (OUTPUT_ROOT ((CONFIG [''app''] 4)\<lparr>OUTPUT_ROOT := [''app'', ''static'', ''out'']\<rparr>))
     [''app'', ''static'', ''out'', ''a.png'']"
proof -
  have "getAllImageFiles ((CONFIG [''app''] 4)\<lparr>OUTPUT_ROOT := [''app'', ''static'', ''out'']\<rparr>)
     [''app'', ''static'']
     (Dir [(''a.png'', File ''aaaa''), (''out'', Dir [(''a.png'', File ''zz'')])])
     = Inr [[''app'', ''static'', ''a.png''], [''app'', ''static'', ''out'', ''a.png'']]"
    by code_simp
  then show ?thesis by (simp add: strict_prefix_def)
qed



subsection \<open>What the console shows\<close>

lemma no_banner_since_refl [simp]: "no_banner_since c c"
  by (simp add: no_banner_since_def)

lemma no_banner_since_iff: "no_banner_since c c' \<longleftrightarrow> (\<exists>ms. c' = c @ ms \<and> Banner \<notin> set ms)"
  by (auto simp: no_banner_since_def prefix_def)

lemma no_banner_since_trans:
  "no_banner_since a b \<Longrightarrow> no_banner_since b c \<Longrightarrow> no_banner_since a c"
  by (auto simp: no_banner_since_iff)

lemma no_banner_since_snoc:
  "no_banner_since a b \<Longrightarrow> m \<noteq> Banner \<Longrightarrow> no_banner_since a (b @ [m])"
  by (auto simp: no_banner_since_iff)

lemma no_banner_since_append:
  "no_banner_since a b \<Longrightarrow> Banner \<notin> set ms \<Longrightarrow> no_banner_since a (b @ ms)"
  by (auto simp: no_banner_since_iff)

lemma console_log_if [simp]:
  "console (log_if b m w) = (if b then console w @ [m] else console w)"
  by (simp add: log_if_def)

lemma head_console:
  "processWorker_head cfg st = (w, st') \<Longrightarrow> no_banner_since (console st) (console st')"
  by (auto simp: processWorker_head_def no_banner_since_iff split: list.splits)

lemma delete_console:
  "no_banner_since (console st) (console (delete_from_holding cfg f st))"
  by (auto simp: delete_from_holding_def no_banner_since_iff split: sum.splits)

lemma resume_console:
  "no_banner_since (console st) (console (processWorker_resume cfg remote out isRetry f st))"
proof -
  obtain t1 tries res where c: "compressImageWorker cfg remote f out (fs st) = (t1, tries, res)"
    by (cases "compressImageWorker cfg remote f out (fs st)") auto
  show ?thesis
  proof (cases res)
    case None
    with c show ?thesis by (simp add: processWorker_resume_def no_banner_since_iff)
  next
    case (Some r)
    show ?thesis
    proof (cases "success r \<and> isRetry")
      case False
      with c Some show ?thesis
        by (auto simp: processWorker_resume_def no_banner_since_iff Let_def)
    next
      case True
      let ?st1 = "log_if (LOG_LEVEL cfg = verbose)
                    (ItemCompressed (relative (SOURCE_ROOT cfg) f) (originalSize r) (compressedSize r))
                    (st\<lparr>fs := t1, results_success := results_success st @ [r]\<rparr>)"
      have "no_banner_since (console st) (console ?st1)"
        by (simp add: no_banner_since_iff)
      from no_banner_since_trans[OF this delete_console[of ?st1 cfg f]] c Some True
      show ?thesis by (simp add: processWorker_resume_def Let_def)
    qed
  qed
qed

lemma step_console:
  "no_banner_since (console st) (console (processWorker_step cfg remote out isRetry i st))"
proof (cases "i < length (workers st)")
  case False
  then show ?thesis by (simp add: processWorker_step_def)
next
  case lt: True
  show ?thesis
  proof (cases "workers st ! i")
    case (Running f)
    with lt resume_console[of st cfg remote out isRetry f] show ?thesis
      by (simp add: processWorker_step_def Let_def)
  next
    case Waiting
    obtain w st' where h: "processWorker_head cfg st = (w, st')"
      by (cases "processWorker_head cfg st")
    from head_console[OF h] h lt Waiting show ?thesis
      by (simp add: processWorker_step_def)
  qed (simp_all add: processWorker_step_def lt)
qed

lemma start_worker_console:
  "no_banner_since (console st) (console (start_worker cfg st))"
proof -
  obtain w st' where h: "processWorker_head cfg st = (w, st')"
    by (cases "processWorker_head cfg st")
  from head_console[OF h] h show ?thesis by (simp add: start_worker_def)
qed

lemma spawn_console:
  "no_banner_since c (console st) \<Longrightarrow>
   no_banner_since c (console (spawn_workers k (start_worker cfg) st))"
proof (induction k arbitrary: st)
  case 0
  then show ?case by simp
next
  case (Suc k)
  from no_banner_since_trans[OF Suc.prems start_worker_console[of st cfg]]
  show ?case by (simp add: Suc.IH)
qed

lemma run_pool_console:
  "no_banner_since c (console st) \<Longrightarrow>
   no_banner_since c (console (run_pool (processWorker_step cfg remote out isRetry) sched st))"
proof (induction sched arbitrary: st)
  case Nil
  then show ?case by simp
next
  case (Cons i sched)
  from no_banner_since_trans[OF Cons.prems step_console[of st cfg remote out isRetry i]]
  show ?case by (cases "promise_all (workers st) = StillPending") (simp_all add: Cons.IH Cons.prems)
qed

lemma run_pass_console:
  "no_banner_since (console w) (console (run_pass cfg remote out isRetry sched allFiles w))"
  unfolding run_pass_def
  by (rule run_pool_console, rule spawn_console) (simp add: new_pool_def)

lemma retry_console:
  "retryFailedFolder cfg remote sched w = Returned u w' \<or>
   retryFailedFolder cfg remote sched w = Threw e w' \<Longrightarrow>
   no_banner_since (console w) (console w')"
proof -
  assume a: "retryFailedFolder cfg remote sched w = Returned u w' \<or>
   retryFailedFolder cfg remote sched w = Threw e w'"
  let ?ff = "\<lambda>names. failed_files cfg names"
  let ?w1 = "\<lambda>names. log (RetryStarted (length (?ff names))) w"
  have rp: "no_banner_since (console w)
      (console (run_pass cfg remote (OUTPUT_ROOT cfg) True sched (?ff names) (?w1 names)))" for names
    using no_banner_since_trans[OF _ run_pass_console[of "?w1 names" cfg remote "OUTPUT_ROOT cfg" True sched "?ff names"]]
    by (simp add: no_banner_since_iff)
  from a show ?thesis
    by (auto simp: retryFailedFolder_def Let_def world_of_def no_banner_since_iff[of "console w" "console w @ _"]
             intro!: no_banner_since_append[OF rp] rp
             split: if_splits sum.splits join.splits)
qed

subsection \<open>The file system\<close>

lemma map_of_update_other: "k' \<noteq> k \<Longrightarrow> map_of (AList.update k v al) k' = map_of al k'"
  by (simp add: update_conv')

lemma map_of_update_same: "map_of (AList.update k v al) k = Some v"
  by (simp add: update_conv')

lemma writeFileSync_written:
  "writeFileSync t p d = Inr t' \<Longrightarrow> lookup t' p = Some (File d)"
proof (induction t p d arbitrary: t' rule: writeFileSync.induct)
  case (1 uu uv uw)
  then show ?case by simp
next
  case (2 es ux)
  then show ?case by simp
next
  case (3 es nm d)
  then show ?case
    by (auto simp: map_of_update_same split: option.splits node.splits)
next
  case (4 es dir v va d)
  then show ?case
    by (auto simp: map_of_update_same split: option.splits sum.splits)
qed

lemma writeFileSync_file_kept:
  "writeFileSync t p d = Inr t' \<Longrightarrow> lookup t q = Some (File c) \<Longrightarrow> q \<noteq> p \<Longrightarrow>
   lookup t' q = Some (File c)"
proof (induction t p d arbitrary: t' q rule: writeFileSync.induct)
  case (1 uu uv uw)
  then show ?case by simp
next
  case (2 es ux)
  then show ?case by simp
next
  case (3 es nm d)
  from "3.prems"(2) obtain k q' where q: "q = k # q'" by (cases q) auto
  show ?case
  proof (cases "k = nm")
    case True
    with q "3.prems" show ?thesis
      by (cases q') (auto simp: map_of_update_same split: option.splits node.splits)
  next
    case False
    with q "3.prems" show ?thesis
      by (auto simp: map_of_update_other split: option.splits node.splits)
  qed
next
  case (4 es dir v va d)
  from "4.prems"(2) obtain k q' where q: "q = k # q'" by (cases q) auto
  from "4.prems"(1) obtain child child' where
    ch: "map_of es dir = Some child" "writeFileSync child (v # va) d = Inr child'"
        "t' = Dir (AList.update dir child' es)"
    by (auto split: option.splits sum.splits)
  show ?case
  proof (cases "k = dir")
    case True
    with q "4.prems"(2,3) ch(1) have "lookup child q' = Some (File c)" "q' \<noteq> v # va" by auto
    from "4.IH"[OF ch(1) ch(2) this] q True ch(3) show ?thesis
      by (simp add: map_of_update_same)
  next
    case False
    with q "4.prems"(2) ch(3) show ?thesis
      by (simp add: map_of_update_other)
  qed
qed

lemma writeFileSync_dir_kept:
  "writeFileSync t p d = Inr t' \<Longrightarrow> lookup t q = Some (Dir ds) \<Longrightarrow>
   \<exists>ds'. lookup t' q = Some (Dir ds')"
proof (induction t p d arbitrary: t' q ds rule: writeFileSync.induct)
  case (1 uu uv uw)
  then show ?case by simp
next
  case (2 es ux)
  then show ?case by simp
next
  case (3 es nm d)
  show ?case
  proof (cases q)
    case Nil
    with "3.prems" show ?thesis by (auto split: option.splits node.splits)
  next
    case (Cons k q')
    show ?thesis
    proof (cases "k = nm")
      case True
      with Cons "3.prems" show ?thesis
        by (cases q') (auto simp: map_of_update_same split: option.splits node.splits)
    next
      case False
      with Cons "3.prems" show ?thesis
        by (auto simp: map_of_update_other split: option.splits node.splits)
    qed
  qed
next
  case (4 es dir v va d)
  from "4.prems"(1) obtain child child' where
    ch: "map_of es dir = Some child" "writeFileSync child (v # va) d = Inr child'"
        "t' = Dir (AList.update dir child' es)"
    by (auto split: option.splits sum.splits)
  show ?case
  proof (cases q)
    case Nil
    with ch(3) show ?thesis by simp
  next
    case (Cons k q')
    show ?thesis
    proof (cases "k = dir")
      case True
      with Cons "4.prems"(2) ch(1) have "lookup child q' = Some (Dir ds)" by auto
      from "4.IH"[OF ch(1) ch(2) this] Cons True ch(3) show ?thesis
        by (simp add: map_of_update_same)
    next
      case False
      with Cons "4.prems"(2) ch(3) show ?thesis
        by (simp add: map_of_update_other)
    qed
  qed
qed

lemma writeFileSync_no_new_dir:
  "writeFileSync t p d = Inr t' \<Longrightarrow> lookup t' q = Some (Dir ds') \<Longrightarrow>
   \<exists>ds. lookup t q = Some (Dir ds)"
proof (induction t p d arbitrary: t' q ds' rule: writeFileSync.induct)
  case (1 uu uv uw)
  then show ?case by simp
next
  case (2 es ux)
  then show ?case by simp
next
  case (3 es nm d)
  show ?case
  proof (cases q)
    case Nil
    then show ?thesis by simp
  next
    case (Cons k q')
    show ?thesis
    proof (cases "k = nm")
      case True
      with Cons "3.prems" show ?thesis
        by (cases q') (auto simp: map_of_update_same split: option.splits node.splits)
    next
      case False
      with Cons "3.prems" show ?thesis
        by (auto simp: map_of_update_other split: option.splits node.splits)
    qed
  qed
next
  case (4 es dir v va d)
  from "4.prems"(1) obtain child child' where
    ch: "map_of es dir = Some child" "writeFileSync child (v # va) d = Inr child'"
        "t' = Dir (AList.update dir child' es)"
    by (auto split: option.splits sum.splits)
  show ?case
  proof (cases q)
    case Nil
    then show ?thesis by simp
  next
    case (Cons k q')
    show ?thesis
    proof (cases "k = dir")
      case True
      with Cons "4.prems"(2) ch(3) have "lookup child' q' = Some (Dir ds')"
        by (simp add: map_of_update_same)
      from "4.IH"[OF ch(1) ch(2) this] Cons True ch(1) show ?thesis by simp
    next
      case False
      with Cons "4.prems"(2) ch(3) show ?thesis
        by (simp add: map_of_update_other)
    qed
  qed
qed

lemma writeFileSync_succeeds:
  "lookup t h = Some (Dir ds) \<Longrightarrow> (\<And>es. lookup t (h @ [b]) \<noteq> Some (Dir es)) \<Longrightarrow>
   \<exists>t'. writeFileSync t (h @ [b]) d = Inr t'"
proof (induction h arbitrary: t)
  case Nil
  from Nil.prems(1) have t: "t = Dir ds" by simp
  show ?case
  proof (cases "map_of ds b")
    case None
    with t show ?thesis by simp
  next
    case (Some n)
    with Nil.prems(2)[of] t obtain c where "n = File c" by (cases n) auto
    with Some t show ?thesis by simp
  qed
next
  case (Cons k h)
  from Cons.prems(1) obtain es where t: "t = Dir es" by (cases t) auto
  with Cons.prems(1) obtain child where ch: "map_of es k = Some child"
    "lookup child h = Some (Dir ds)" by (auto split: option.splits)
  from Cons.prems(2) t ch(1) have "\<And>es. lookup child (h @ [b]) \<noteq> Some (Dir es)" by simp
  from Cons.IH[OF ch(2) this] obtain c' where "writeFileSync child (h @ [b]) d = Inr c'" by blast
  with t ch(1) show ?case by (cases "h @ [b]") auto
qed


lemma mkdirSync_made:
  "mkdirSync t p = Inr t' \<Longrightarrow> \<exists>ds. lookup t' p = Some (Dir ds)"
proof (induction t p arbitrary: t' rule: mkdirSync.induct)
  case (4 es dir p)
  then show ?case
    by (auto simp: map_of_update_same split: sum.splits)
qed auto

lemma mkdirSync_file_kept:
  "mkdirSync t p = Inr t' \<Longrightarrow> lookup t q = Some (File c) \<Longrightarrow> lookup t' q = Some (File c)"
proof (induction t p arbitrary: t' q rule: mkdirSync.induct)
  case (4 es dir p)
  from "4.prems"(1) obtain child' where
    ch: "mkdirSync (case map_of es dir of None \<Rightarrow> Dir [] | Some child \<Rightarrow> child) p = Inr child'"
        "t' = Dir (AList.update dir child' es)"
    by (auto split: sum.splits)
  from "4.prems"(2) obtain k q' where q: "q = k # q'" by (cases q) auto
  show ?case
  proof (cases "k = dir")
    case True
    with q "4.prems"(2) obtain child where c: "map_of es dir = Some child"
      "lookup child q' = Some (File c)" by (auto split: option.splits)
    with "4.IH"[OF ch(1)] have "lookup child' q' = Some (File c)" by simp
    with q True ch(2) show ?thesis by (simp add: map_of_update_same)
  next
    case False
    with q "4.prems"(2) ch(2) show ?thesis by (simp add: map_of_update_other)
  qed
qed auto

lemma mkdirSync_new_dirs:
  "mkdirSync t p = Inr t' \<Longrightarrow> lookup t' q = Some (Dir ds') \<Longrightarrow>
   (\<exists>ds. lookup t q = Some (Dir ds)) \<or> prefix q p"
proof (induction t p arbitrary: t' q ds' rule: mkdirSync.induct)
  case (4 es dir p)
  from "4.prems"(1) obtain child' where
    ch: "mkdirSync (case map_of es dir of None \<Rightarrow> Dir [] | Some child \<Rightarrow> child) p = Inr child'"
        "t' = Dir (AList.update dir child' es)"
    by (auto split: sum.splits)
  show ?case
  proof (cases q)
    case Nil
    then show ?thesis by simp
  next
    case (Cons k q')
    show ?thesis
    proof (cases "k = dir")
      case True
      with Cons "4.prems"(2) ch(2) have "lookup child' q' = Some (Dir ds')"
        by (simp add: map_of_update_same)
      from "4.IH"[OF ch(1) this] have
        "(\<exists>ds. lookup (case map_of es dir of None \<Rightarrow> Dir [] | Some child \<Rightarrow> child) q' = Some (Dir ds))
         \<or> prefix q' p" .
      then show ?thesis
      proof
        assume "prefix q' p"
        with Cons True show ?thesis by simp
      next
        assume a: "\<exists>ds. lookup (case map_of es dir of None \<Rightarrow> Dir [] | Some child \<Rightarrow> child) q'
                      = Some (Dir ds)"
        show ?thesis
        proof (cases "map_of es dir")
          case None
          with a have "q' = []" by (cases q') auto
          with Cons True show ?thesis by simp
        next
          case (Some child)
          with a Cons True show ?thesis by simp
        qed
      qed
    next
      case False
      with Cons "4.prems"(2) ch(2) show ?thesis by (simp add: map_of_update_other)
    qed
  qed
qed auto

lemma ensure_dir_facts:
  assumes "ensure_dir t h = Inr t'" and "\<And>c. lookup t h \<noteq> Some (File c)"
  shows "\<exists>ds. lookup t' h = Some (Dir ds)"
    and "lookup t q = Some (File c) \<Longrightarrow> lookup t' q = Some (File c)"
    and "(\<And>es. lookup t (h @ [b]) \<noteq> Some (Dir es)) \<Longrightarrow> lookup t' (h @ [b]) \<noteq> Some (Dir es')"
proof -
  show "\<exists>ds. lookup t' h = Some (Dir ds)"
  proof (cases "existsSync t h")
    case True
    with assms(1) have "t' = t" by (simp add: ensure_dir_def)
    with True assms(2) show ?thesis
      by (cases "lookup t h") (auto simp: existsSync_def intro: node.exhaust)
  next
    case False
    with assms(1) show ?thesis by (simp add: ensure_dir_def mkdirSync_made)
  qed
  show "lookup t q = Some (File c) \<Longrightarrow> lookup t' q = Some (File c)"
    using assms(1) by (auto simp: ensure_dir_def mkdirSync_file_kept split: if_splits)
  show "(\<And>es. lookup t (h @ [b]) \<noteq> Some (Dir es)) \<Longrightarrow> lookup t' (h @ [b]) \<noteq> Some (Dir es')"
  proof
    assume n: "\<And>es. lookup t (h @ [b]) \<noteq> Some (Dir es)" and d: "lookup t' (h @ [b]) = Some (Dir es')"
    show False
    proof (cases "existsSync t h")
      case True
      with assms(1) have "t' = t" by (simp add: ensure_dir_def)
      with d n[of es'] show False by simp
    next
      case False
      with assms(1) have "mkdirSync t h = Inr t'" by (simp add: ensure_dir_def)
      from mkdirSync_new_dirs[OF this d] n show False by auto
    qed
  qed
qed



lemma copy_failed_file_fs:
  "fs (copy_failed_file cfg v g) = fs v \<or>
   (\<exists>d t'. readFileSync (fs v) (filePath g) = Inr d \<and>
      writeFileSync (fs v) (path_join (SAVE_FAILED_TO cfg) (basename (filePath g))) d = Inr t' \<and>
      fs (copy_failed_file cfg v g) = t')"
  by (auto simp: copy_failed_file_def copyFileSync_def Let_def split: sum.splits)

subsection \<open>Saving the failed files\<close>

text \<open>
  Claim C4 (amended). At the end of a normal pass every failed item's source file is
  copied into the holding directory under its base name alone, whether or not a file of
  that name is there already, and of several failed items with one base name the last
  in \<^verbatim>\<open>results.failed\<close> leaves its content: if \<open>f\<close> is the last failure with its base
  name, its source is a regular file outside the holding directory, the holding path is
  not a regular file and the target is not a directory, then after \<open>save_failed\<close> the
  holding directory has the content of \<open>f\<close>'s source under \<open>f\<close>'s base name.
\<close>

theorem failed_files_saved_last_wins:
  assumes ok: "save_failed cfg failed w = Inr w'"
    and split: "failed = pre @ f # post"
    and last: "\<forall>g \<in> set post. basename (filePath g) \<noteq> basename (filePath f)"
    and src: "lookup (fs w) (filePath f) = Some (File content)"
    and outside: "\<not> prefix (SAVE_FAILED_TO cfg) (filePath f)"
    and hfile: "\<forall>c. lookup (fs w) (SAVE_FAILED_TO cfg) \<noteq> Some (File c)"
    and nodir: "\<forall>es. lookup (fs w) (path_join (SAVE_FAILED_TO cfg) (basename (filePath f)))
                  \<noteq> Some (Dir es)"
  shows "lookup (fs w') (path_join (SAVE_FAILED_TO cfg) (basename (filePath f)))
           = Some (File content)"
proof -
  let ?h = "SAVE_FAILED_TO cfg"
  let ?tgt = "path_join ?h (basename (filePath f))"
  define inv where "inv v \<longleftrightarrow> (\<exists>ds. lookup (fs v) ?h = Some (Dir ds)) \<and>
      lookup (fs v) (filePath f) = Some (File content) \<and>
      (\<forall>es. lookup (fs v) ?tgt \<noteq> Some (Dir es))" for v :: world
  define saved where "saved v \<longleftrightarrow> inv v \<and> lookup (fs v) ?tgt = Some (File content)" for v :: world
  have src_ne: "filePath f \<noteq> path_join ?h b" for b
    using outside by (auto simp: path_join_def)
  have inv_step: "inv (copy_failed_file cfg v g)" if "inv v" for v g
  proof -
    from copy_failed_file_fs[of cfg v g] show ?thesis
    proof (elim disjE exE conjE)
      assume "fs (copy_failed_file cfg v g) = fs v"
      with that show ?thesis by (simp add: inv_def)
    next
      fix d t'
      assume wr: "writeFileSync (fs v) (path_join ?h (basename (filePath g))) d = Inr t'"
        and eq: "fs (copy_failed_file cfg v g) = t'"
      from that obtain ds where "lookup (fs v) ?h = Some (Dir ds)" by (auto simp: inv_def)
      from writeFileSync_dir_kept[OF wr this] have 1: "\<exists>ds. lookup t' ?h = Some (Dir ds)" .
      from that have "lookup (fs v) (filePath f) = Some (File content)" by (simp add: inv_def)
      from writeFileSync_file_kept[OF wr this src_ne]
      have 2: "lookup t' (filePath f) = Some (File content)" .
      have 3: "\<forall>es. lookup t' ?tgt \<noteq> Some (Dir es)"
      proof (intro allI notI)
        fix es assume "lookup t' ?tgt = Some (Dir es)"
        from writeFileSync_no_new_dir[OF wr this] that show False by (auto simp: inv_def)
      qed
      from 1 2 3 eq show ?thesis by (simp add: inv_def)
    qed
  qed
  have saved_step: "saved (copy_failed_file cfg v g)"
    if "saved v" "basename (filePath g) \<noteq> basename (filePath f)" for v g
  proof -
    from that(1) have i: "inv (copy_failed_file cfg v g)" by (simp add: saved_def inv_step)
    from copy_failed_file_fs[of cfg v g] show ?thesis
    proof (elim disjE exE conjE)
      assume "fs (copy_failed_file cfg v g) = fs v"
      with that(1) i show ?thesis by (simp add: saved_def)
    next
      fix d t'
      assume wr: "writeFileSync (fs v) (path_join ?h (basename (filePath g))) d = Inr t'"
        and eq: "fs (copy_failed_file cfg v g) = t'"
      from that(2) have ne: "?tgt \<noteq> path_join ?h (basename (filePath g))"
        by (auto simp: path_join_def)
      from that(1) have "lookup (fs v) ?tgt = Some (File content)" by (simp add: saved_def)
      from writeFileSync_file_kept[OF wr this ne] i eq show ?thesis by (simp add: saved_def)
    qed
  qed
  have f_step: "saved (copy_failed_file cfg v f)" if "inv v" for v
  proof -
    from that obtain ds where h: "lookup (fs v) ?h = Some (Dir ds)"
      and s: "lookup (fs v) (filePath f) = Some (File content)"
      and nd: "\<And>es. lookup (fs v) (?h @ [basename (filePath f)]) \<noteq> Some (Dir es)"
      by (auto simp: inv_def path_join_def)
    from writeFileSync_succeeds[OF h nd] obtain t' where
      wr: "writeFileSync (fs v) ?tgt content = Inr t'" by (auto simp: path_join_def)
    with s have "fs (copy_failed_file cfg v f) = t'"
      by (simp add: copy_failed_file_def copyFileSync_def readFileSync_def Let_def)
    with writeFileSync_written[OF wr] inv_step[OF that, of f] show ?thesis
      by (simp add: saved_def)
  qed
  have inv_fold: "inv (foldl (copy_failed_file cfg) v gs)" if "inv v" for v gs
    using that by (induction gs arbitrary: v) (auto simp: inv_step)
  have saved_fold: "saved (foldl (copy_failed_file cfg) v gs)"
    if "saved v" "\<forall>g \<in> set gs. basename (filePath g) \<noteq> basename (filePath f)" for v gs
    using that by (induction gs arbitrary: v) (auto simp: saved_step)
  from split have ne: "failed \<noteq> []" by simp
  with ok obtain t1 where e: "ensure_dir (fs w) ?h = Inr t1"
    and w': "w' = log (FailedFilesSavedTo ?h) (foldl (copy_failed_file cfg) (w\<lparr>fs := t1\<rparr>) failed)"
    by (auto simp: save_failed_def split: sum.splits)
  from hfile have hf: "\<And>c. lookup (fs w) ?h \<noteq> Some (File c)" by blast
  from nodir have nd: "\<And>es. lookup (fs w) (?h @ [basename (filePath f)]) \<noteq> Some (Dir es)"
    by (simp add: path_join_def)
  from ensure_dir_facts(1)[OF e hf] ensure_dir_facts(2)[OF e hf src]
    ensure_dir_facts(3)[OF e hf nd]
  have "inv (w\<lparr>fs := t1\<rparr>)" by (auto simp: inv_def path_join_def)
  then have "inv (foldl (copy_failed_file cfg) (w\<lparr>fs := t1\<rparr>) pre)" by (rule inv_fold)
  then have "saved (copy_failed_file cfg (foldl (copy_failed_file cfg) (w\<lparr>fs := t1\<rparr>) pre) f)"
    by (rule f_step)
  then have "saved (foldl (copy_failed_file cfg)
      (copy_failed_file cfg (foldl (copy_failed_file cfg) (w\<lparr>fs := t1\<rparr>) pre) f) post)"
    using last by (rule saved_fold)
  then have "saved (foldl (copy_failed_file cfg) (w\<lparr>fs := t1\<rparr>) failed)"
    by (simp add: split)
  with w' show ?thesis by (simp add: saved_def log_def)
qed

text \<open>
  Two failed files \<^verbatim>\<open>x/a.png\<close> and \<^verbatim>\<open>y/a.png\<close>: the holding directory is made and ends
  with the content of the second under \<^verbatim>\<open>a.png\<close>.
\<close>

theorem failed_files_saved_last_wins_witness:
  "save_failed (CONFIG [''app''] 4)
     [Failure (Some ''a.png'') [''app'', ''static'', ''x'', ''a.png''] ''No response from server'',
      Failure (Some ''a.png'') [''app'', ''static'', ''y'', ''a.png''] ''No response from server'']
     \<lparr> fs = Dir [(''app'', Dir [(''static'',
               Dir [(''x'', Dir [(''a.png'', File ''first'')]),
                    (''y'', Dir [(''a.png'', File ''second'')])])])],
       console = [] \<rparr>
   = Inr \<lparr> fs = Dir [(''app'', Dir [(''static'',
               Dir [(''x'', Dir [(''a.png'', File ''first'')]),
                    (''y'', Dir [(''a.png'', File ''second'')])]),
               (''failed_images'', Dir [(''a.png'', File ''second'')])])],
           console = [FailedFilesSavedTo [''app'', ''failed_images'']] \<rparr> \<and>
   lookup (Dir [(''app'', Dir [(''static'',
               Dir [(''x'', Dir [(''a.png'', File ''first'')]),
                    (''y'', Dir [(''a.png'', File ''second'')])]),
               (''failed_images'', Dir [(''a.png'', File ''second'')])])])
       (path_join (SAVE_FAILED_TO (CONFIG [''app''] 4)) ''a.png'') = Some (File ''second'')"
proof -
  let ?cfg = "CONFIG [''app''] 4"
  let ?f1 = "Failure (Some ''a.png'') [''app'', ''static'', ''x'', ''a.png''] ''No response from server''"
  let ?f2 = "Failure (Some ''a.png'') [''app'', ''static'', ''y'', ''a.png''] ''No response from server''"
  let ?w = "\<lparr> fs = Dir [(''app'', Dir [(''static'',
               Dir [(''x'', Dir [(''a.png'', File ''first'')]),
                    (''y'', Dir [(''a.png'', File ''second'')])])])],
       console = [] \<rparr>"
  let ?w' = "\<lparr> fs = Dir [(''app'', Dir [(''static'',
               Dir [(''x'', Dir [(''a.png'', File ''first'')]),
                    (''y'', Dir [(''a.png'', File ''second'')])]),
               (''failed_images'', Dir [(''a.png'', File ''second'')])])],
           console = [FailedFilesSavedTo [''app'', ''failed_images'']] \<rparr>"
  have h1: "save_failed ?cfg [?f1, ?f2] ?w = Inr ?w'" by code_simp
  have h2: "[?f1, ?f2] = [?f1] @ ?f2 # []" by simp
  have h3: "\<forall>g \<in> set []. basename (filePath g) \<noteq> basename (filePath ?f2)" by simp
  have h4: "lookup (fs ?w) (filePath ?f2) = Some (File ''second'')" by simp
  have h5: "\<not> prefix (SAVE_FAILED_TO ?cfg) (filePath ?f2)"
    by (simp add: CONFIG_def path_join_def)
  have h6: "\<forall>c. lookup (fs ?w) (SAVE_FAILED_TO ?cfg) \<noteq> Some (File c)"
    by (simp add: CONFIG_def path_join_def)
  have h7: "\<forall>es. lookup (fs ?w) (path_join (SAVE_FAILED_TO ?cfg) (basename (filePath ?f2)))
                  \<noteq> Some (Dir es)"
    by (simp add: CONFIG_def path_join_def basename_def)
  from failed_files_saved_last_wins[OF h1 h2 h3 h4 h5 h6 h7]
  have "lookup (fs ?w') (path_join (SAVE_FAILED_TO ?cfg) ''a.png'') = Some (File ''second'')"
    by (simp add: basename_def)
  with h1 show ?thesis by simp
qed

text \<open>
  A copy is not skipped when the holding directory already has the name: the old
  \<^verbatim>\<open>failed_images/a.png\<close> is replaced by the source that failed in this pass.
\<close>

theorem failed_file_overwrites_present_copy:
  "compressFolder ((CONFIG [''app''] 4)\<lparr>COPY_UNSUPPORTED_TO_OUTPUT := False\<rparr>)
     (\<lambda>p n. StoreFailed (JsError None True [])) [0, 0]
     \<lparr> fs = Dir [(''app'', Dir [(''static'', Dir [(''a.png'', File ''new'')]),
                               (''failed_images'', Dir [(''a.png'', File ''old'')])])],
       console = [] \<rparr>
   = Returned ()
     \<lparr> fs = Dir [(''app'', Dir [(''static'', Dir [(''a.png'', File ''new'')]),
                               (''failed_images'', Dir [(''a.png'', File ''new'')]),
                               (''compressed_results'', Dir [])])],
       console = [Banner, ItemFailed [''a.png''] ''No response from server'',
                  FailedFilesSavedTo [''app'', ''failed_images''], Summary 0 1 0 0,
                  UnsupportedCopyDone, FirstPassDone [''app'', ''compressed_results'']] \<rparr>"
  by code_simp

subsection \<open>The passes and the program\<close>

text \<open>
  Claim C5 (amended). When the source root does not exist the pass stops before any
  file is looked for: \<^verbatim>\<open>compressFolder\<close> of \<^verbatim>\<open>index.js\<close> prints the error and returns
  normally, with the file system as it was; \<^verbatim>\<open>compressFolder\<close> of the extension throws.
\<close>

theorem missing_source_root:
  assumes "lookup (fs w) (SOURCE_ROOT cfg) = None" and "lookup (fs w) sourceDir = None"
  shows "compressFolder cfg remote sched w
           = Returned () (log (SourceRootMissing (SOURCE_ROOT cfg)) (log Banner w)) \<and>
         fs (log (SourceRootMissing (SOURCE_ROOT cfg)) (log Banner w)) = fs w \<and>
         compressFolder_ext config remote sched sourceDir w
           = Threw (JsError None False ''source directory does not exist'') w"
  using assms by (simp add: compressFolder_def compressFolder_ext_def existsSync_def Let_def)

theorem missing_source_root_witness:
  "lookup (fs \<lparr> fs = Dir [(''app'', Dir [])], console = [] \<rparr>) (SOURCE_ROOT (CONFIG [''app''] 4)) = None \<and>
   compressFolder (CONFIG [''app''] 4) (\<lambda>p n. Compressed ''zz'') [0]
       \<lparr> fs = Dir [(''app'', Dir [])], console = [] \<rparr>
     = Returned () \<lparr> fs = Dir [(''app'', Dir [])],
                     console = [Banner, SourceRootMissing [''app'', ''static'']] \<rparr> \<and>
   compressFolder_ext getConfig_defaults (\<lambda>p n. Compressed ''zz'') [0] [''app'', ''static'']
       \<lparr> fs = Dir [(''app'', Dir [])], console = [] \<rparr>
     = Threw (JsError None False ''source directory does not exist'')
         \<lparr> fs = Dir [(''app'', Dir [])], console = [] \<rparr>"
proof -
  let ?w = "\<lparr> fs = Dir [(''app'', Dir [])], console = [] \<rparr>"
  have h1: "lookup (fs ?w) (SOURCE_ROOT (CONFIG [''app''] 4)) = None"
    by (simp add: CONFIG_def path_join_def)
  have h2: "lookup (fs ?w) [''app'', ''static''] = None" by simp
  from missing_source_root[OF h1 h2, of "\<lambda>p n. Compressed ''zz''" "[0]" getConfig_defaults] h1
  show ?thesis by (simp add: CONFIG_def path_join_def log_def)
qed

text \<open>
  No error reaches the caller of \<^verbatim>\<open>compressFolder\<close> in \<^verbatim>\<open>index.js\<close>: the call returns, and
  the program goes on to the recovery pass without printing a fatal error.
\<close>

theorem missing_source_root_returns_normally:
  "lookup (Dir []) (SOURCE_ROOT (CONFIG [''app''] 4)) = None \<and>
   compressFolder (CONFIG [''app''] 4) (\<lambda>p n. Compressed ''zz'') [] \<lparr> fs = Dir [], console = [] \<rparr>
     = Returned () \<lparr> fs = Dir [], console = [Banner, SourceRootMissing [''app'', ''static'']] \<rparr> \<and>
   main False (CONFIG [''app''] 4) (\<lambda>p n. Compressed ''zz'') [] [] \<lparr> fs = Dir [], console = [] \<rparr>
     = Returned () \<lparr> fs = Dir [],
          console = [Banner, SourceRootMissing [''app'', ''static''], NoHoldingDirectory] \<rparr>"
  by code_simp

text \<open>
  Claim C6. When the holding directory does not exist, or holds no file of a supported
  format (as when it is empty), \<^verbatim>\<open>retryFailedFolder\<close> returns without an error, prints
  that there is nothing to retry, starts no worker and leaves the file system as it
  was.
\<close>

theorem retry_nothing_to_do:
  assumes "lookup (fs w) (SAVE_FAILED_TO cfg) = None \<or>
           (\<exists>es. lookup (fs w) (SAVE_FAILED_TO cfg) = Some (Dir es) \<and>
                 filter (is_supported cfg) (map fst es) = [])"
  shows "retryFailedFolder cfg remote sched w
           = Returned () (log (if lookup (fs w) (SAVE_FAILED_TO cfg) = None
                               then NoHoldingDirectory else NothingToRetry) w) \<and>
         fs (log (if lookup (fs w) (SAVE_FAILED_TO cfg) = None
                  then NoHoldingDirectory else NothingToRetry) w) = fs w"
  using assms
  by (auto simp: retryFailedFolder_def existsSync_def readdirSync_def failed_files_def Let_def)

theorem retry_nothing_to_do_witness:
  "lookup (fs \<lparr> fs = Dir [(''app'', Dir [(''failed_images'', Dir [(''notes.txt'', File ''n'')])])],
              console = [] \<rparr>) (SAVE_FAILED_TO (CONFIG [''app''] 4))
     = Some (Dir [(''notes.txt'', File ''n'')]) \<and>
   filter (is_supported (CONFIG [''app''] 4)) (map fst [(''notes.txt'', File ''n'')]) = [] \<and>
   retryFailedFolder (CONFIG [''app''] 4) (\<lambda>p n. Compressed ''zz'') [0]
       \<lparr> fs = Dir [(''app'', Dir [(''failed_images'', Dir [(''notes.txt'', File ''n'')])])],
         console = [] \<rparr>
     = Returned ()
       \<lparr> fs = Dir [(''app'', Dir [(''failed_images'', Dir [(''notes.txt'', File ''n'')])])],
         console = [NothingToRetry] \<rparr>"
proof -
  let ?w = "\<lparr> fs = Dir [(''app'', Dir [(''failed_images'', Dir [(''notes.txt'', File ''n'')])])],
              console = [] \<rparr>"
  have h1: "lookup (fs ?w) (SAVE_FAILED_TO (CONFIG [''app''] 4))
     = Some (Dir [(''notes.txt'', File ''n'')])"
    by (simp add: CONFIG_def path_join_def)
  have h2: "filter (is_supported (CONFIG [''app''] 4)) (map fst [(''notes.txt'', File ''n'')]) = []"
    by code_simp
  from h1 h2 have h: "lookup (fs ?w) (SAVE_FAILED_TO (CONFIG [''app''] 4)) = None \<or>
           (\<exists>es. lookup (fs ?w) (SAVE_FAILED_TO (CONFIG [''app''] 4)) = Some (Dir es) \<and>
                 filter (is_supported (CONFIG [''app''] 4)) (map fst es) = [])"
    by blast
  from retry_nothing_to_do[OF h, of "\<lambda>p n. Compressed ''zz''" "[0]"] h1 h2
  show ?thesis by (simp add: log_def)
qed

text \<open>
  Claim C2. After a recovery pass, a file that was compressed again is gone from the
  holding directory and its compressed form is in the output root. With the written
  configuration the second part fails: the output path of \<^verbatim>\<open>failed_images/a.png\<close> is
  \<^verbatim>\<open>path.join(OUTPUT_ROOT, '../failed_images', 'a.png')\<close>, the holding file itself, so the
  compressed bytes overwrite the quarantined copy and \<^verbatim>\<open>unlinkSync\<close> then deletes them.
  The pass reports one success; neither the output root nor the holding directory has
  the file.
\<close>

theorem recovery_pass_loses_artifact:
  "retryFailedFolder (CONFIG [''app''] 4) (\<lambda>p n. Compressed ''zz'') [0, 0, 0]
     \<lparr> fs = Dir [(''app'', Dir [(''compressed_results'', Dir []),
                               (''failed_images'', Dir [(''a.png'', File ''aaaa'')])])],
       console = [] \<rparr>
   = Returned ()
     \<lparr> fs = Dir [(''app'', Dir [(''compressed_results'', Dir []), (''failed_images'', Dir [])])],
       console = [RetryStarted 1, RetryFinished 1 0, AllRecovered] \<rparr> \<and>
   results_success (run_pass (CONFIG [''app''] 4) (\<lambda>p n. Compressed ''zz'')
       (OUTPUT_ROOT (CONFIG [''app''] 4)) True [0, 0, 0] [[''app'', ''failed_images'', ''a.png'']]
       \<lparr> fs = Dir [(''app'', Dir [(''compressed_results'', Dir []),
                               (''failed_images'', Dir [(''a.png'', File ''aaaa'')])])],
         console = [RetryStarted 1] \<rparr>)
   = [Success [''app'', ''failed_images'', ''a.png''] [''app'', ''failed_images'', ''a.png'']
        ''a.png'' 4 2]"
  by code_simp

text \<open>The same for every file name of the holding directory, under the written paths.\<close>

lemma relative_common_prefix: "relative (xs @ as) (xs @ bs) = relative as bs"
  by (induction xs) auto

lemma normalize_clean:
  "\<forall>s \<in> set xs. s \<noteq> ''..'' \<and> s \<noteq> ''.'' \<and> s \<noteq> [] \<Longrightarrow> foldl normalize_step acc xs = acc @ xs"
  by (induction xs arbitrary: acc) (auto simp: normalize_step_def)

lemma recovery_output_is_holding_file:
  assumes "\<forall>s \<in> set (dir @ [nm]). s \<noteq> ''..'' \<and> s \<noteq> ''.'' \<and> s \<noteq> []"
  shows "output_path (CONFIG dir cpus) (path_join (SAVE_FAILED_TO (CONFIG dir cpus)) nm)
           (OUTPUT_ROOT (CONFIG dir cpus))
         = path_join (SAVE_FAILED_TO (CONFIG dir cpus)) nm"
proof -
  from assms have c: "\<forall>s \<in> set dir. s \<noteq> ''..'' \<and> s \<noteq> ''.'' \<and> s \<noteq> []"
    and n: "nm \<noteq> ''..''" "nm \<noteq> ''.''" "nm \<noteq> []" by auto
  have r: "relative (dir @ [''static'']) (dir @ [''failed_images'']) = [''..'', ''failed_images'']"
    by (simp add: relative_common_prefix)
  have "normalize_path ((dir @ [''compressed_results'']) @ [''..'', ''failed_images''] @ [nm])
        = foldl normalize_step (foldl normalize_step [] dir) [''compressed_results'', ''..'', ''failed_images'', nm]"
    by (simp add: normalize_path_def)
  also have "\<dots> = dir @ [''failed_images'', nm]"
    using n by (simp add: normalize_clean[OF c] normalize_step_def)
  finally have "normalize_path (dir @ ''compressed_results'' # [''..'', ''failed_images''] @ [nm])
      = dir @ [''failed_images'', nm]" by simp
  moreover have "butlast (dir @ [''failed_images'', nm]) = dir @ [''failed_images'']"
    by (simp add: butlast_append)
  ultimately show ?thesis
    using r by (simp add: output_path_def CONFIG_def path_join_def path_join3_def dirname_def basename_def)
qed

subsection \<open>What a recovery pass touches\<close>

text \<open>
  A pass changes the file system only at the files it was given and at their output
  paths, and prints its lines about these files only.
\<close>

lemma only_logged_iff: "only_logged P c c' \<longleftrightarrow> (\<exists>ms. c' = c @ ms \<and> (\<forall>m \<in> set ms. P m))"
  by (auto simp: only_logged_def prefix_def list_all_iff)

lemma only_logged_refl [simp]: "only_logged P c c"
  by (simp add: only_logged_iff)

lemma only_logged_trans:
  "only_logged P a b \<Longrightarrow> only_logged P b c \<Longrightarrow> only_logged P a c"
  by (auto simp: only_logged_iff)

lemma only_logged_snoc: "only_logged P a b \<Longrightarrow> P m \<Longrightarrow> only_logged P a (b @ [m])"
  by (auto simp: only_logged_iff)

lemma only_logged_mono:
  "only_logged P a b \<Longrightarrow> (\<And>m. P m \<Longrightarrow> Q m) \<Longrightarrow> only_logged Q a b"
  by (auto simp: only_logged_iff)

lemma map_of_delete_other: "k' \<noteq> k \<Longrightarrow> map_of (AList.delete k al) k' = map_of al k'"
  by (simp add: delete_conv')

lemma unlinkSync_file_kept:
  "unlinkSync t p = Inr t' \<Longrightarrow> lookup t q = Some (File c) \<Longrightarrow> q \<noteq> p \<Longrightarrow>
   lookup t' q = Some (File c)"
proof (induction t p arbitrary: t' q rule: unlinkSync.induct)
  case (1 uu uv)
  then show ?case by simp
next
  case (2 es)
  then show ?case by simp
next
  case (3 es nm)
  from "3.prems"(2) obtain k q' where q: "q = k # q'" by (cases q) auto
  show ?case
  proof (cases "k = nm")
    case True
    with q "3.prems" show ?thesis
      by (cases q') (auto split: option.splits node.splits)
  next
    case False
    with q "3.prems" show ?thesis
      by (auto simp: map_of_delete_other split: option.splits node.splits)
  qed
next
  case (4 es dir v va)
  from "4.prems"(2) obtain k q' where q: "q = k # q'" by (cases q) auto
  from "4.prems"(1) obtain child child' where
    ch: "map_of es dir = Some child" "unlinkSync child (v # va) = Inr child'"
        "t' = Dir (AList.update dir child' es)"
    by (auto split: option.splits sum.splits)
  show ?case
  proof (cases "k = dir")
    case True
    with q "4.prems"(2,3) ch(1) have "lookup child q' = Some (File c)" "q' \<noteq> v # va" by auto
    from "4.IH"[OF ch(1) ch(2) this] q True ch(3) show ?thesis
      by (simp add: map_of_update_same)
  next
    case False
    with q "4.prems"(2) ch(3) show ?thesis
      by (simp add: map_of_update_other)
  qed
qed

lemma ensure_dir_file_kept:
  "ensure_dir t h = Inr t' \<Longrightarrow> lookup t q = Some (File c) \<Longrightarrow> lookup t' q = Some (File c)"
  by (auto simp: ensure_dir_def mkdirSync_file_kept split: if_splits)

lemma attempt_file_kept:
  "attempt cfg remote fp out n t = (t', r) \<Longrightarrow> lookup t q = Some (File c) \<Longrightarrow>
   q \<noteq> output_path cfg fp out \<Longrightarrow> lookup t' q = Some (File c)"
  by (auto simp: attempt_def Let_def ensure_dir_file_kept
           split: sum.splits reply.splits
           dest!: writeFileSync_file_kept[where q = q and c = c]
           dest: ensure_dir_file_kept)

lemma loop_file_kept:
  "compressImageWorker_loop cfg remote fp out rc t = (t', tries, res) \<Longrightarrow>
   lookup t q = Some (File c) \<Longrightarrow> q \<noteq> output_path cfg fp out \<Longrightarrow>
   lookup t' q = Some (File c)"
proof (induction cfg remote fp out rc t arbitrary: t' tries res
        rule: compressImageWorker_loop.induct)
  case (1 cfg remote fp out rc t)
  show ?case
  proof (cases "rc \<le> MAX_RETRIES cfg")
    case False
    with "1.prems" show ?thesis by (simp add: compressImageWorker_loop.simps)
  next
    case le: True
    obtain t1 outc where att: "attempt cfg remote fp out (nat rc) t = (t1, outc)"
      by (cases "attempt cfg remote fp out (nat rc) t")
    note k1 = attempt_file_kept[OF att "1.prems"(2,3)]
    show ?thesis
    proof (cases outc)
      case (Inr r')
      with att le "1.prems" k1 show ?thesis
        by (auto simp: compressImageWorker_loop.simps[of cfg remote fp out rc t])
    next
      case (Inl err)
      show ?thesis
      proof (cases "rc + 1 > MAX_RETRIES cfg")
        case True
        with att le Inl "1.prems" k1 show ?thesis
          by (auto simp: compressImageWorker_loop.simps[of cfg remote fp out rc t])
      next
        case False
        obtain t2 tries2 res2 where rec:
          "compressImageWorker_loop cfg remote fp out (rc + 1) t1 = (t2, tries2, res2)"
          by (cases "compressImageWorker_loop cfg remote fp out (rc + 1) t1") auto
        from att le Inl False rec "1.prems" have "t' = t2"
          by (auto simp: compressImageWorker_loop.simps[of cfg remote fp out rc t])
        with "1.IH"[OF le att[symmetric] Inl False rec k1 "1.prems"(3)] show ?thesis by simp
      qed
    qed
  qed
qed

lemma delete_file_kept:
  "lookup (fs st) q = Some (File c) \<Longrightarrow> q \<noteq> f \<Longrightarrow>
   lookup (fs (delete_from_holding cfg f st)) q = Some (File c)"
  by (auto simp: delete_from_holding_def unlinkSync_file_kept split: sum.splits)

lemma resume_file_kept:
  assumes "lookup (fs st) q = Some (File c)" and "q \<noteq> f" and "q \<noteq> output_path cfg f out"
  shows "lookup (fs (processWorker_resume cfg remote out isRetry f st)) q = Some (File c)"
proof -
  obtain t1 tries res where c: "compressImageWorker cfg remote f out (fs st) = (t1, tries, res)"
    by (cases "compressImageWorker cfg remote f out (fs st)") auto
  then have k: "lookup t1 q = Some (File c)"
    using loop_file_kept[of cfg remote f out 0 "fs st" t1 tries res q c] assms
    by (simp add: compressImageWorker_def)
  show ?thesis
  proof (cases res)
    case None
    with c k show ?thesis by (simp add: processWorker_resume_def)
  next
    case (Some r)
    show ?thesis
    proof (cases "success r \<and> isRetry")
      case False
      with c k Some show ?thesis by (auto simp: processWorker_resume_def Let_def)
    next
      case True
      let ?st1 = "log_if (LOG_LEVEL cfg = verbose)
                    (ItemCompressed (relative (SOURCE_ROOT cfg) f) (originalSize r) (compressedSize r))
                    (st\<lparr>fs := t1, results_success := results_success st @ [r]\<rparr>)"
      from k have "lookup (fs ?st1) q = Some (File c)" by simp
      from delete_file_kept[OF this assms(2), of cfg] c Some True show ?thesis
        by (simp add: processWorker_resume_def Let_def)
    qed
  qed
qed

lemma running_accounted:
  "i < length (workers st) \<Longrightarrow> workers st ! i = Running f \<Longrightarrow> f \<in># accounted st"
proof -
  assume a: "i < length (workers st)" "workers st ! i = Running f"
  then have "Running f \<in> set (workers st)" by (metis nth_mem)
  then have "f \<in> set (concat (map in_flight (workers st)))" by force
  then show ?thesis by (simp add: accounted_def)
qed

lemma queued_accounted: "f \<in> set (files st) \<Longrightarrow> f \<in># accounted st"
  by (simp add: accounted_def)

lemma step_file_kept:
  assumes "lookup (fs st) q = Some (File c)"
    and "q \<notin># accounted st" and "q \<notin> (\<lambda>f. output_path cfg f out) ` set_mset (accounted st)"
  shows "lookup (fs (processWorker_step cfg remote out isRetry i st)) q = Some (File c)"
proof (cases "i < length (workers st)")
  case False
  with assms show ?thesis by (simp add: processWorker_step_def)
next
  case lt: True
  show ?thesis
  proof (cases "workers st ! i")
    case (Running f)
    from running_accounted[OF lt Running] assms(2,3)
    have "q \<noteq> f" "q \<noteq> output_path cfg f out" by auto
    from resume_file_kept[OF assms(1) this] lt Running show ?thesis
      by (simp add: processWorker_step_def Let_def)
  next
    case Waiting
    with lt assms(1) show ?thesis
      by (auto simp: processWorker_step_def processWorker_head_def split: list.splits)
  qed (simp_all add: processWorker_step_def lt assms(1))
qed

lemma start_worker_fs: "fs (start_worker cfg st) = fs st"
  by (auto simp: start_worker_def processWorker_head_def split: list.splits)

lemma run_pass_file_kept:
  assumes "lookup (fs w) q = Some (File c)"
    and "q \<notin> set allFiles" and "q \<notin> (\<lambda>f. output_path cfg f out) ` set allFiles"
  shows "lookup (fs (run_pass cfg remote out isRetry sched allFiles w)) q = Some (File c)"
proof -
  let ?P = "\<lambda>s. accounted s = mset allFiles \<and> lookup (fs s) q = Some (File c)"
  have "?P (new_pool cfg allFiles w)"
    using assms(1) by (simp add: new_pool_def accounted_def records_def)
  then have "?P (spawn_workers (worker_count (MAX_CONCURRENT cfg) allFiles) (start_worker cfg)
                   (new_pool cfg allFiles w))"
    by (rule spawn_invariant[rotated]) (simp add: start_worker_accounted start_worker_fs)
  then have "?P (run_pass cfg remote out isRetry sched allFiles w)"
    unfolding run_pass_def
  proof (rule run_pool_invariant[rotated])
    fix i s assume p: "?P s"
    with assms(2,3) have "q \<notin># accounted s" "q \<notin> (\<lambda>f. output_path cfg f out) ` set_mset (accounted s)"
      by auto
    from step_file_kept[OF _ this] p
    show "?P (processWorker_step cfg remote out isRetry i s)"
      by (simp add: step_accounted)
  qed
  then show ?thesis by simp
qed

lemma head_msgs:
  "processWorker_head cfg st = (w, st') \<Longrightarrow> set (files st) \<subseteq> set items \<Longrightarrow>
   only_logged (recovery_msg cfg items) (console st) (console st')"
  by (auto simp: processWorker_head_def only_logged_iff split: list.splits)

lemma delete_msgs:
  "f \<in> set items \<Longrightarrow>
   only_logged (recovery_msg cfg items) (console st) (console (delete_from_holding cfg f st))"
  by (auto simp: delete_from_holding_def only_logged_iff split: sum.splits)

lemma resume_msgs:
  assumes "f \<in> set items"
  shows "only_logged (recovery_msg cfg items) (console st)
           (console (processWorker_resume cfg remote out isRetry f st))"
proof -
  obtain t1 tries res where c: "compressImageWorker cfg remote f out (fs st) = (t1, tries, res)"
    by (cases "compressImageWorker cfg remote f out (fs st)") auto
  show ?thesis
  proof (cases res)
    case None
    with c assms show ?thesis by (simp add: processWorker_resume_def only_logged_iff)
  next
    case (Some r)
    show ?thesis
    proof (cases "success r \<and> isRetry")
      case False
      with c Some assms show ?thesis
        by (auto simp: processWorker_resume_def only_logged_iff Let_def)
    next
      case True
      let ?st1 = "log_if (LOG_LEVEL cfg = verbose)
                    (ItemCompressed (relative (SOURCE_ROOT cfg) f) (originalSize r) (compressedSize r))
                    (st\<lparr>fs := t1, results_success := results_success st @ [r]\<rparr>)"
      have "only_logged (recovery_msg cfg items) (console st) (console ?st1)"
        using assms by (simp add: only_logged_iff)
      from only_logged_trans[OF this delete_msgs[OF assms, of cfg ?st1]] c Some True
      show ?thesis by (simp add: processWorker_resume_def Let_def)
    qed
  qed
qed

lemma step_msgs:
  assumes "set_mset (accounted st) \<subseteq> set items"
  shows "only_logged (recovery_msg cfg items) (console st)
           (console (processWorker_step cfg remote out isRetry i st))"
proof (cases "i < length (workers st)")
  case False
  then show ?thesis by (simp add: processWorker_step_def)
next
  case lt: True
  show ?thesis
  proof (cases "workers st ! i")
    case (Running f)
    from running_accounted[OF lt Running] assms have "f \<in> set items" by auto
    from resume_msgs[OF this, of cfg st remote out isRetry] lt Running show ?thesis
      by (simp add: processWorker_step_def Let_def)
  next
    case Waiting
    obtain w st' where h: "processWorker_head cfg st = (w, st')"
      by (cases "processWorker_head cfg st")
    from assms have "set (files st) \<subseteq> set items" by (auto simp: accounted_def)
    from head_msgs[OF h this] h lt Waiting show ?thesis
      by (simp add: processWorker_step_def)
  qed (simp_all add: processWorker_step_def lt)
qed

lemma start_worker_msgs:
  assumes "set_mset (accounted st) \<subseteq> set items"
  shows "only_logged (recovery_msg cfg items) (console st) (console (start_worker cfg st))"
proof -
  obtain w st' where h: "processWorker_head cfg st = (w, st')"
    by (cases "processWorker_head cfg st")
  from assms have "set (files st) \<subseteq> set items" by (auto simp: accounted_def)
  from head_msgs[OF h this] h show ?thesis by (simp add: start_worker_def)
qed

lemma run_pass_msgs:
  assumes "set allFiles \<subseteq> set items"
  shows "only_logged (recovery_msg cfg items) (console w)
           (console (run_pass cfg remote out isRetry sched allFiles w))"
proof -
  let ?P = "\<lambda>s. accounted s = mset allFiles \<and>
                 only_logged (recovery_msg cfg items) (console w) (console s)"
  have "?P (new_pool cfg allFiles w)"
    by (simp add: new_pool_def accounted_def records_def)
  then have "?P (spawn_workers (worker_count (MAX_CONCURRENT cfg) allFiles) (start_worker cfg)
                   (new_pool cfg allFiles w))"
  proof (rule spawn_invariant[rotated])
    fix s assume p: "?P s"
    with assms have "set_mset (accounted s) \<subseteq> set items" by simp
    from only_logged_trans[OF _ start_worker_msgs[OF this]] p
    show "?P (start_worker cfg s)" by (simp add: start_worker_accounted)
  qed
  then have "?P (run_pass cfg remote out isRetry sched allFiles w)"
    unfolding run_pass_def
  proof (rule run_pool_invariant[rotated])
    fix i s assume p: "?P s"
    with assms have "set_mset (accounted s) \<subseteq> set items" by simp
    from only_logged_trans[OF _ step_msgs[OF this]] p
    show "?P (processWorker_step cfg remote out isRetry i s)" by (simp add: step_accounted)
  qed
  then show ?thesis by simp
qed

lemma run_pass_records_length:
  "length (results_success (run_pass cfg remote out isRetry sched allFiles w)) +
   length (results_failed (run_pass cfg remote out isRetry sched allFiles w)) \<le> length allFiles"
proof -
  let ?st = "run_pass cfg remote out isRetry sched allFiles w"
  have "mset (map filePath (records ?st)) \<subseteq># accounted ?st"
    by (simp add: accounted_def)
  then have "size (mset (map filePath (records ?st))) \<le> size (accounted ?st)"
    by (rule size_mset_mono)
  then show ?thesis by (simp add: run_pass_accounted records_def)
qed

lemma failed_files_entries:
  assumes "lookup t (SAVE_FAILED_TO cfg) = Some (Dir es)"
  shows "set (failed_files cfg (map fst es)) \<subseteq> set (holding_entries cfg t)"
    and "length (failed_files cfg (map fst es)) \<le> length (holding_entries cfg t)"
proof -
  show "set (failed_files cfg (map fst es)) \<subseteq> set (holding_entries cfg t)"
    using assms by (auto simp: failed_files_def holding_entries_def)
  have "length (filter (is_supported cfg) (map fst es)) \<le> length (map fst es)"
    by (rule length_filter_le)
  with assms show "length (failed_files cfg (map fst es)) \<le> length (holding_entries cfg t)"
    by (simp add: failed_files_def holding_entries_def)
qed

lemma retry_never_throws:
  assumes "\<And>c. lookup (fs w) (SAVE_FAILED_TO cfg) \<noteq> Some (File c)"
  shows "retryFailedFolder cfg remote sched w \<noteq> Threw e w'"
  using assms run_pass_never_rejected
  by (auto simp: retryFailedFolder_def Let_def existsSync_def readdirSync_def
           split: option.splits node.splits join.splits)

lemma retry_msgs:
  assumes "retryFailedFolder cfg remote sched w = Returned u w'"
  shows "only_logged (recovery_msg cfg (holding_entries cfg (fs w))) (console w) (console w')"
proof (cases "lookup (fs w) (SAVE_FAILED_TO cfg)")
  case None
  with assms show ?thesis
    by (auto simp: retryFailedFolder_def existsSync_def only_logged_iff)
next
  case (Some n)
  show ?thesis
  proof (cases n)
    case (File c)
    with Some assms show ?thesis
      by (simp add: retryFailedFolder_def existsSync_def readdirSync_def)
  next
    case (Dir es)
    let ?I = "holding_entries cfg (fs w)"
    let ?ff = "failed_files cfg (map fst es)"
    let ?w1 = "log (RetryStarted (length ?ff)) w"
    let ?st = "run_pass cfg remote (OUTPUT_ROOT cfg) True sched ?ff ?w1"
    from Some Dir have l: "lookup (fs w) (SAVE_FAILED_TO cfg) = Some (Dir es)" by simp
    note sub = failed_files_entries[OF l]
    show ?thesis
    proof (cases "?ff = []")
      case True
      with l assms show ?thesis
        by (auto simp: retryFailedFolder_def existsSync_def readdirSync_def only_logged_iff)
    next
      case False
      have a: "only_logged (recovery_msg cfg ?I) (console w) (console ?w1)"
        using sub(2) by (simp add: only_logged_iff)
      have "only_logged (recovery_msg cfg ?I) (console ?w1) (console ?st)"
        using sub(1) by (rule run_pass_msgs)
      with a have b: "only_logged (recovery_msg cfg ?I) (console w) (console ?st)"
        by (rule only_logged_trans)
      from run_pass_records_length[of cfg remote "OUTPUT_ROOT cfg" True sched ?ff ?w1] sub(2)
      have "recovery_msg cfg ?I (RetryFinished (length (results_success ?st))
                                   (length (results_failed ?st)))" by simp
      from only_logged_snoc[OF b this]
      have c: "only_logged (recovery_msg cfg ?I) (console w)
                 (console ?st @ [RetryFinished (length (results_success ?st))
                                   (length (results_failed ?st))])" .
      have d: "recovery_msg cfg ?I (if results_failed ?st \<noteq> [] then StillFailing else AllRecovered)"
        by simp
      from assms l False have "promise_all (workers ?st) = AllExited"
        by (auto simp: retryFailedFolder_def existsSync_def readdirSync_def Let_def
                 split: join.splits)
      with assms l False have "console w' = console ?st @
           [RetryFinished (length (results_success ?st)) (length (results_failed ?st)),
            if results_failed ?st \<noteq> [] then StillFailing else AllRecovered]"
        by (auto simp: retryFailedFolder_def existsSync_def readdirSync_def Let_def world_of_def)
      with only_logged_snoc[OF c d] show ?thesis by simp
    qed
  qed
qed

lemma retry_file_kept:
  assumes "retryFailedFolder cfg remote sched w = Returned u w' \<or>
           retryFailedFolder cfg remote sched w = Threw e w'"
    and "lookup (fs w) q = Some (File c)"
    and "q \<notin> set (holding_entries cfg (fs w))"
    and "q \<notin> set (map (\<lambda>f. output_path cfg f (OUTPUT_ROOT cfg)) (holding_entries cfg (fs w)))"
  shows "lookup (fs w') q = Some (File c)"
proof (cases "lookup (fs w) (SAVE_FAILED_TO cfg)")
  case None
  with assms show ?thesis
    by (auto simp: retryFailedFolder_def existsSync_def)
next
  case (Some n)
  show ?thesis
  proof (cases n)
    case (File d)
    with Some assms show ?thesis
      by (auto simp: retryFailedFolder_def existsSync_def readdirSync_def)
  next
    case (Dir es)
    let ?ff = "failed_files cfg (map fst es)"
    let ?w1 = "log (RetryStarted (length ?ff)) w"
    let ?st = "run_pass cfg remote (OUTPUT_ROOT cfg) True sched ?ff ?w1"
    from Some Dir have l: "lookup (fs w) (SAVE_FAILED_TO cfg) = Some (Dir es)" by simp
    note sub = failed_files_entries(1)[OF l]
    show ?thesis
    proof (cases "?ff = []")
      case True
      with l assms show ?thesis
        by (auto simp: retryFailedFolder_def existsSync_def readdirSync_def)
    next
      case False
      from assms(2) have "lookup (fs ?w1) q = Some (File c)" by simp
      moreover from assms(3) sub have "q \<notin> set ?ff" by auto
      moreover from assms(4) sub
      have "q \<notin> (\<lambda>f. output_path cfg f (OUTPUT_ROOT cfg)) ` set ?ff" by auto
      ultimately have "lookup (fs ?st) q = Some (File c)" by (rule run_pass_file_kept)
      moreover from assms(1) l False have "fs w' = fs ?st"
        by (auto simp: retryFailedFolder_def existsSync_def readdirSync_def Let_def world_of_def
                 split: join.splits)
      ultimately show ?thesis by simp
    qed
  qed
qed

subsection \<open>The program\<close>

text \<open>
  Claim C9 (amended). With \<^verbatim>\<open>--retry-failed\<close> the program runs the recovery pass alone and
  the source tree is never scanned: the banner of the normal pass is not printed; every
  regular file that is neither an entry of the holding directory nor the output path of
  one is afterwards what it was; and, the holding path not being a regular file, all that
  is printed are the lines of a recovery pass about entries of the holding directory,
  with no fatal error. Without the flag the program runs \<^verbatim>\<open>compressFolder\<close> and, when that
  returns, the recovery pass on the world it left; when \<^verbatim>\<open>compressFolder\<close> throws, the
  error is printed and no recovery pass follows.
\<close>

theorem main_runs_passes:
  "main True cfg remote sched1 sched2 w
     = report_error (retryFailedFolder cfg remote sched2 (log RetryOnlyMode w)) \<and>
   (\<forall>u w'. main True cfg remote sched1 sched2 w = Returned u w' \<longrightarrow>
      no_banner_since (console w) (console w') \<and>
      (\<forall>q c. lookup (fs w) q = Some (File c) \<and>
             q \<notin> set (holding_entries cfg (fs w)) \<and>
             q \<notin> set (map (\<lambda>f. output_path cfg f (OUTPUT_ROOT cfg))
                         (holding_entries cfg (fs w))) \<longrightarrow>
             lookup (fs w') q = Some (File c)) \<and>
      ((\<forall>c. lookup (fs w) (SAVE_FAILED_TO cfg) \<noteq> Some (File c)) \<longrightarrow>
         only_logged (recovery_msg cfg (holding_entries cfg (fs w))) (console w) (console w'))) \<and>
   (\<forall>u w1. compressFolder cfg remote sched1 w = Returned u w1 \<longrightarrow>
      main False cfg remote sched1 sched2 w
        = report_error (retryFailedFolder cfg remote sched2 w1)) \<and>
   (\<forall>e w1. compressFolder cfg remote sched1 w = Threw e w1 \<longrightarrow>
      main False cfg remote sched1 sched2 w = Returned () (log (FatalError e) w1))"
proof (intro conjI allI impI)
  show "main True cfg remote sched1 sched2 w
     = report_error (retryFailedFolder cfg remote sched2 (log RetryOnlyMode w))"
    by (simp add: main_def)
next
  fix u w'
  assume a: "main True cfg remote sched1 sched2 w = Returned u w'"
  let ?r = "retryFailedFolder cfg remote sched2 (log RetryOnlyMode w)"
  have start: "no_banner_since (console w) (console (log RetryOnlyMode w))"
    by (simp add: no_banner_since_iff)
  show "no_banner_since (console w) (console w')"
  proof (cases ?r)
    case (Returned u1 w1)
    with a have "w' = w1" by (simp add: main_def report_error_def)
    with retry_console[of cfg remote sched2 "log RetryOnlyMode w" u1 w1] Returned
    have "no_banner_since (console (log RetryOnlyMode w)) (console w')" by simp
    with start show ?thesis by (rule no_banner_since_trans)
  next
    case (Threw e w1)
    with a have w': "w' = log (FatalError e) w1" by (simp add: main_def report_error_def)
    from retry_console[of cfg remote sched2 "log RetryOnlyMode w" _ w1 e] Threw
    have "no_banner_since (console (log RetryOnlyMode w)) (console w1)" by simp
    then have "no_banner_since (console (log RetryOnlyMode w)) (console w')"
      using w' by (simp add: no_banner_since_snoc)
    with start show ?thesis by (rule no_banner_since_trans)
  next
    case Suspended
    with a show ?thesis by (simp add: main_def report_error_def)
  qed
next
  fix u w' q c
  assume a: "main True cfg remote sched1 sched2 w = Returned u w'"
    and q: "lookup (fs w) q = Some (File c) \<and>
             q \<notin> set (holding_entries cfg (fs w)) \<and>
             q \<notin> set (map (\<lambda>f. output_path cfg f (OUTPUT_ROOT cfg))
                         (holding_entries cfg (fs w)))"
  let ?w0 = "log RetryOnlyMode w"
  let ?r = "retryFailedFolder cfg remote sched2 ?w0"
  from q have q': "lookup (fs ?w0) q = Some (File c)"
    "q \<notin> set (holding_entries cfg (fs ?w0))"
    "q \<notin> set (map (\<lambda>f. output_path cfg f (OUTPUT_ROOT cfg)) (holding_entries cfg (fs ?w0)))"
    by simp_all
  show "lookup (fs w') q = Some (File c)"
  proof (cases ?r)
    case (Returned u1 w1)
    with a have "w' = w1" by (simp add: main_def report_error_def)
    with retry_file_kept[OF _ q', of remote sched2 u1 w1] Returned show ?thesis by simp
  next
    case (Threw e w1)
    with a have "fs w' = fs w1" by (auto simp: main_def report_error_def)
    with retry_file_kept[OF _ q', of remote sched2 _ w1 e] Threw show ?thesis by simp
  next
    case Suspended
    with a show ?thesis by (simp add: main_def report_error_def)
  qed
next
  fix u w'
  assume a: "main True cfg remote sched1 sched2 w = Returned u w'"
    and nf: "\<forall>c. lookup (fs w) (SAVE_FAILED_TO cfg) \<noteq> Some (File c)"
  let ?w0 = "log RetryOnlyMode w"
  let ?r = "retryFailedFolder cfg remote sched2 ?w0"
  let ?P = "recovery_msg cfg (holding_entries cfg (fs w))"
  have start: "only_logged ?P (console w) (console ?w0)"
    by (simp add: only_logged_iff)
  show "only_logged ?P (console w) (console w')"
  proof (cases ?r)
    case (Returned u1 w1)
    with a have "w' = w1" by (simp add: main_def report_error_def)
    with retry_msgs[OF Returned] have "only_logged ?P (console ?w0) (console w')" by simp
    with start show ?thesis by (rule only_logged_trans)
  next
    case (Threw e w1)
    with retry_never_throws[of ?w0 cfg remote sched2 e w1] nf show ?thesis by simp
  next
    case Suspended
    with a show ?thesis by (simp add: main_def report_error_def)
  qed
next
  fix u w1 assume "compressFolder cfg remote sched1 w = Returned u w1"
  then show "main False cfg remote sched1 sched2 w
        = report_error (retryFailedFolder cfg remote sched2 w1)"
    by (simp add: main_def)
next
  fix e w1 assume "compressFolder cfg remote sched1 w = Threw e w1"
  then show "main False cfg remote sched1 sched2 w = Returned () (log (FatalError e) w1)"
    by (simp add: main_def report_error_def)
qed

text \<open>
  Both modes on a world with an image and a text file in the source root and an image
  in the holding directory; the service refuses \<^verbatim>\<open>static/s.png\<close> and compresses everything
  else. With the flag only the holding file is tried and \<^verbatim>\<open>static/s.png\<close> is as it was.
  Without it the normal pass fails on \<^verbatim>\<open>s.png\<close>, saves it to the holding directory and
  copies the text file, and the recovery pass then tries both holding files. Where
  \<^verbatim>\<open>static\<close> is a regular file \<^verbatim>\<open>compressFolder\<close> throws and the error is printed.
\<close>

theorem main_runs_passes_witness:
  "main True (CONFIG [''app''] 4)
     (\<lambda>p n. if p = [''app'', ''static'', ''s.png'']
            then StoreFailed (JsError None True []) else Compressed ''zz'') [] [0, 0]
     \<lparr> fs = Dir [(''app'', Dir [(''static'', Dir [(''s.png'', File ''ssss''),
                                                   (''notes.txt'', File ''n'')]),
                               (''failed_images'', Dir [(''b.jpg'', File ''bbbbbb'')])])],
       console = [] \<rparr>
   = Returned ()
     \<lparr> fs = Dir [(''app'', Dir [(''static'', Dir [(''s.png'', File ''ssss''),
                                                   (''notes.txt'', File ''n'')]),
                               (''failed_images'', Dir [])])],
       console = [RetryOnlyMode, RetryStarted 1, RetryFinished 1 0, AllRecovered] \<rparr> \<and>
   holding_entries (CONFIG [''app''] 4)
     (Dir [(''app'', Dir [(''static'', Dir [(''s.png'', File ''ssss''),
                                            (''notes.txt'', File ''n'')]),
                        (''failed_images'', Dir [(''b.jpg'', File ''bbbbbb'')])])])
   = [[''app'', ''failed_images'', ''b.jpg'']] \<and>
   no_banner_since [] [RetryOnlyMode, RetryStarted 1, RetryFinished 1 0, AllRecovered] \<and>
   only_logged (recovery_msg (CONFIG [''app''] 4) [[''app'', ''failed_images'', ''b.jpg'']])
     [] [RetryOnlyMode, RetryStarted 1, RetryFinished 1 0, AllRecovered] \<and>
   lookup (Dir [(''app'', Dir [(''static'', Dir [(''s.png'', File ''ssss''),
                                                   (''notes.txt'', File ''n'')]),
                               (''failed_images'', Dir [])])])
     [''app'', ''static'', ''s.png''] = Some (File ''ssss'') \<and>
   compressFolder (CONFIG [''app''] 4)
     (\<lambda>p n. if p = [''app'', ''static'', ''s.png'']
            then StoreFailed (JsError None True []) else Compressed ''zz'') [0, 0]
     \<lparr> fs = Dir [(''app'', Dir [(''static'', Dir [(''s.png'', File ''ssss''),
                                                   (''notes.txt'', File ''n'')]),
                               (''failed_images'', Dir [(''b.jpg'', File ''bbbbbb'')])])],
       console = [] \<rparr>
   = Returned ()
     \<lparr> fs = Dir [(''app'', Dir [(''static'', Dir [(''s.png'', File ''ssss''),
                                                   (''notes.txt'', File ''n'')]),
                               (''failed_images'', Dir [(''b.jpg'', File ''bbbbbb''),
                                                          (''s.png'', File ''ssss'')]),
                               (''compressed_results'', Dir [(''notes.txt'', File ''n'')])])],
       console = [Banner, ItemFailed [''s.png''] ''No response from server'',
                  FailedFilesSavedTo [''app'', ''failed_images''], Summary 0 1 0 0,
                  UnsupportedCopyDone, FirstPassDone [''app'', ''compressed_results'']] \<rparr> \<and>
   main False (CONFIG [''app''] 4)
     (\<lambda>p n. if p = [''app'', ''static'', ''s.png'']
            then StoreFailed (JsError None True []) else Compressed ''zz'') [0, 0] [0, 0, 1, 1]
     \<lparr> fs = Dir [(''app'', Dir [(''static'', Dir [(''s.png'', File ''ssss''),
                                                   (''notes.txt'', File ''n'')]),
                               (''failed_images'', Dir [(''b.jpg'', File ''bbbbbb'')])])],
       console = [] \<rparr>
   = Returned ()
     \<lparr> fs = Dir [(''app'', Dir [(''static'', Dir [(''s.png'', File ''ssss''),
                                                   (''notes.txt'', File ''n'')]),
                               (''failed_images'', Dir []),
                               (''compressed_results'', Dir [(''notes.txt'', File ''n'')])])],
       console = [Banner, ItemFailed [''s.png''] ''No response from server'',
                  FailedFilesSavedTo [''app'', ''failed_images''], Summary 0 1 0 0,
                  UnsupportedCopyDone, FirstPassDone [''app'', ''compressed_results''],
                  RetryStarted 2, RetryFinished 2 0, AllRecovered] \<rparr> \<and>
   compressFolder (CONFIG [''app''] 4) (\<lambda>p n. Compressed ''zz'') []
     \<lparr> fs = Dir [(''app'', Dir [(''static'', File ''x'')])], console = [] \<rparr>
   = Threw (JsError None False ''ENOTDIR'')
       \<lparr> fs = Dir [(''app'', Dir [(''static'', File ''x'')])], console = [Banner] \<rparr> \<and>
   main False (CONFIG [''app''] 4) (\<lambda>p n. Compressed ''zz'') [] []
     \<lparr> fs = Dir [(''app'', Dir [(''static'', File ''x'')])], console = [] \<rparr>
   = Returned ()
       \<lparr> fs = Dir [(''app'', Dir [(''static'', File ''x'')])],
         console = [Banner, FatalError (JsError None False ''ENOTDIR'')] \<rparr>"
proof -
  let ?cfg = "CONFIG [''app''] 4"
  let ?r = "\<lambda>p n. if p = [''app'', ''static'', ''s.png'']
            then StoreFailed (JsError None True []) else Compressed ''zz''"
  let ?t = "Dir [(''app'', Dir [(''static'', Dir [(''s.png'', File ''ssss''),
                                                   (''notes.txt'', File ''n'')]),
                               (''failed_images'', Dir [(''b.jpg'', File ''bbbbbb'')])])]"
  let ?t' = "Dir [(''app'', Dir [(''static'', Dir [(''s.png'', File ''ssss''),
                                                   (''notes.txt'', File ''n'')]),
                               (''failed_images'', Dir [])])]"
  let ?w = "\<lparr> fs = ?t, console = [] \<rparr>"
  let ?c' = "[RetryOnlyMode, RetryStarted 1, RetryFinished 1 0, AllRecovered]"
  let ?w' = "\<lparr> fs = ?t', console = ?c' \<rparr>"
  let ?w1 = "\<lparr> fs = Dir [(''app'', Dir [(''static'', Dir [(''s.png'', File ''ssss''),
                                                   (''notes.txt'', File ''n'')]),
                               (''failed_images'', Dir [(''b.jpg'', File ''bbbbbb''),
                                                          (''s.png'', File ''ssss'')]),
                               (''compressed_results'', Dir [(''notes.txt'', File ''n'')])])],
       console = [Banner, ItemFailed [''s.png''] ''No response from server'',
                  FailedFilesSavedTo [''app'', ''failed_images''], Summary 0 1 0 0,
                  UnsupportedCopyDone, FirstPassDone [''app'', ''compressed_results'']] \<rparr>"
  let ?x = "\<lparr> fs = Dir [(''app'', Dir [(''static'', File ''x'')])], console = [] \<rparr>"
  let ?x1 = "\<lparr> fs = Dir [(''app'', Dir [(''static'', File ''x'')])], console = [Banner] \<rparr>"
  let ?q = "[''app'', ''static'', ''s.png'']"
  have h1: "main True ?cfg ?r [] [0, 0] ?w = Returned () ?w'" by code_simp
  have he: "holding_entries ?cfg ?t = [[''app'', ''failed_images'', ''b.jpg'']]" by code_simp
  have q1: "lookup (fs ?w) ?q = Some (File ''ssss'')" by simp
  have q2: "?q \<notin> set (holding_entries ?cfg (fs ?w))" by (simp add: he)
  have q3: "?q \<notin> set (map (\<lambda>f. output_path ?cfg f (OUTPUT_ROOT ?cfg))
                         (holding_entries ?cfg (fs ?w)))" by code_simp
  have nf: "\<forall>c. lookup (fs ?w) (SAVE_FAILED_TO ?cfg) \<noteq> Some (File c)"
    by (simp add: CONFIG_def path_join_def)
  have h2: "compressFolder ?cfg ?r [0, 0] ?w = Returned () ?w1" by code_simp
  have h3: "report_error (retryFailedFolder ?cfg ?r [0, 0, 1, 1] ?w1) =
     Returned ()
     \<lparr> fs = Dir [(''app'', Dir [(''static'', Dir [(''s.png'', File ''ssss''),
                                                   (''notes.txt'', File ''n'')]),
                               (''failed_images'', Dir []),
                               (''compressed_results'', Dir [(''notes.txt'', File ''n'')])])],
       console = [Banner, ItemFailed [''s.png''] ''No response from server'',
                  FailedFilesSavedTo [''app'', ''failed_images''], Summary 0 1 0 0,
                  UnsupportedCopyDone, FirstPassDone [''app'', ''compressed_results''],
                  RetryStarted 2, RetryFinished 2 0, AllRecovered] \<rparr>" by code_simp
  have h4: "compressFolder ?cfg (\<lambda>p n. Compressed ''zz'') [] ?x
              = Threw (JsError None False ''ENOTDIR'') ?x1" by code_simp
  note t = main_runs_passes[of ?cfg ?r "[]" "[0, 0]" ?w]
  from t h1 have a: "no_banner_since (console ?w) (console ?w')" by blast
  from t h1 q1 q2 q3 have b: "lookup (fs ?w') ?q = Some (File ''ssss'')" by blast
  from t h1 nf have c: "only_logged (recovery_msg ?cfg (holding_entries ?cfg (fs ?w)))
      (console ?w) (console ?w')" by blast
  from main_runs_passes[of ?cfg ?r "[0, 0]" "[0, 0, 1, 1]" ?w] h2
  have d: "main False ?cfg ?r [0, 0] [0, 0, 1, 1] ?w
             = report_error (retryFailedFolder ?cfg ?r [0, 0, 1, 1] ?w1)" by blast
  from main_runs_passes[of ?cfg "\<lambda>p n. Compressed ''zz''" "[]" "[]" ?x] h4
  have e: "main False ?cfg (\<lambda>p n. Compressed ''zz'') [] [] ?x
             = Returned () (log (FatalError (JsError None False ''ENOTDIR'')) ?x1)" by blast
  from a b c d e h1 h2 h3 h4 he show ?thesis by (simp add: log_def)
qed

text \<open>
  The recovery pass does not always follow: here \<^verbatim>\<open>static\<close> is a regular file,
  \<^verbatim>\<open>readdirSync\<close> throws out of \<^verbatim>\<open>compressFolder\<close>, the error is printed and the image
  waiting in the holding directory is not tried again.
\<close>

theorem main_skips_recovery_after_error:
  "main False (CONFIG [''app''] 4) (\<lambda>p n. Compressed ''zz'') [] [0, 0, 0]
     \<lparr> fs = Dir [(''app'', Dir [(''static'', File ''oops''),
                               (''failed_images'', Dir [(''b.jpg'', File ''bbbbbb'')])])],
       console = [] \<rparr>
   = Returned ()
     \<lparr> fs = Dir [(''app'', Dir [(''static'', File ''oops''),
                               (''failed_images'', Dir [(''b.jpg'', File ''bbbbbb'')])])],
       console = [Banner, FatalError (JsError None False ''ENOTDIR'')] \<rparr>"
  by code_simp

end
